theory Spec2Isabelle
  imports Complex_Main
begin

text \<open>
  A shallow embedding of the three functions of the notebook \<^verbatim>\<open>slf_old.ipynb\<close>: the
  population model \<^verbatim>\<open>slf_population_model\<close>, the scheduler
  \<^verbatim>\<open>pesticide_application_strategy\<close> with its helper \<^verbatim>\<open>insecticide_effectiveness\<close>, and
  the evaluator \<^verbatim>\<open>calculate_profit\<close>. Lists and data-frame columns are lists,
  dictionaries are functions, and every exception is a result of type \<open>error\<close>. In the
  population model every float operation is rounded to the nearest double and the
  count arrays hold 64-bit integers that wrap around; the numeric columns of the
  product table, the rates and the money amounts are rationals.
\<close>

section \<open>Errors raised by the notebook's functions\<close>

text \<open>
  Every \<^verbatim>\<open>raise\<close> of the notebook, and every exception of the library calls
  modelled below, is a constructor. Its payload is exactly what the message of the
  exception interpolates:
  \<^item> \<open>IndexError\<close>: a list read past its end (\<^verbatim>\<open>temperature[i]\<close>);
  \<^item> \<open>OverflowError\<close>: a Python integer outside the 64-bit range stored into an integer
    array (\<^verbatim>\<open>nymph_count[i] = initial_eggs\<close>);
  \<^item> \<open>ArraysLengthMismatch\<close>: the data-frame constructor given columns of different lengths;
  \<^item> \<open>SeasonalMaxExceeded product\<close>:
    \<^verbatim>\<open>ValueError(f"Seasonal Max exceeded for chosen pesticide {chosen_pesticide}.")\<close>;
  \<^item> \<open>NoSuitablePesticide day\<close>:
    \<^verbatim>\<open>ValueError(f"No suitable pesticide found or PHI constraints prevent application on day {row['day']}.")\<close>;
  \<^item> \<open>KeyError\<close>: a data-frame column that does not exist;
  \<^item> \<open>AmbiguousTruthValue\<close>: a whole column used as the condition of an \<^verbatim>\<open>if\<close>.
\<close>

datatype error =
    IndexError
  | OverflowError
  | ArraysLengthMismatch
  | SeasonalMaxExceeded string
  | NoSuitablePesticide int
  | KeyError
  | AmbiguousTruthValue

section \<open>Double-precision floats and 64-bit integers\<close>

text \<open>
  A finite Python float is the rational it denotes. \<open>double x\<close> is the double nearest to
  \<open>x\<close>, ties to the even significand. The significand has 53 bits, so a positive \<open>x\<close>
  with \<open>2 ^ e \<le> x < 2 ^ (e + 1)\<close> is rounded to a multiple of \<open>2 ^ (e - 52)\<close>, and to a
  multiple of \<open>2 ^ (- 1074)\<close> in the subnormal range. Every float operation of the
  notebook is the exact operation followed by this rounding. Infinities and
  not-a-number are left out: the weather entries are finite, and on finite entries no
  operation of the population model leaves the range of the doubles.
\<close>

definition round_half_even :: "rat \<Rightarrow> int" where
  "round_half_even x =
     (let f = \<lfloor>x\<rfloor>; r = x - of_int f
      in if r < 1 / 2 then f else if 1 / 2 < r then f + 1 else if even f then f else f + 1)"

text \<open>The number of binary digits of a positive integer.\<close>

function bit_length :: "int \<Rightarrow> int" where
  "bit_length n = (if 0 < n then 1 + bit_length (n div 2) else 0)"
  by pat_completeness auto
termination
  by (relation "measure nat") auto

declare bit_length.simps [simp del]

text \<open>For positive \<open>x\<close>, the exponent \<open>e\<close> with \<open>2 ^ e \<le> x < 2 ^ (e + 1)\<close>.\<close>

definition binade :: "rat \<Rightarrow> int" where
  "binade x =
     (if 1 \<le> x then bit_length \<lfloor>x\<rfloor> - 1 else - bit_length (\<lceil>1 / x\<rceil> - 1))"

definition double_pos :: "rat \<Rightarrow> rat" where
  "double_pos x =
     (let q = max (binade x - 52) (- 1074)
      in of_int (round_half_even (x / 2 powi q)) * 2 powi q)"

definition double :: "rat \<Rightarrow> rat" where
  "double x = (if x = 0 then 0 else if 0 < x then double_pos x else - double_pos (- x))"

definition double_sub :: "rat \<Rightarrow> rat \<Rightarrow> rat" where
  "double_sub a b = double (a - b)"

definition double_mul :: "rat \<Rightarrow> rat \<Rightarrow> rat" where
  "double_mul a b = double (a * b)"

definition double_div :: "rat \<Rightarrow> rat \<Rightarrow> rat" where
  "double_div a b = double (a / b)"

text \<open>The conversion of a 64-bit integer to a double, as in \<^verbatim>\<open>nymph_count[i-1] * growth_rate\<close>.\<close>

definition double_of_int :: "int \<Rightarrow> rat" where
  "double_of_int n = double (of_int n)"

text \<open>
  The count arrays are made with \<^verbatim>\<open>np.zeros_like(days, dtype=int)\<close>: their entries are
  64-bit signed integers. Arithmetic on an entry wraps around; storing a Python
  integer outside the range raises.
\<close>

definition in_int64 :: "int \<Rightarrow> bool" where
  "in_int64 x = (- (2 ^ 63) \<le> x \<and> x < 2 ^ 63)"

definition int64_wrap :: "int \<Rightarrow> int" where
  "int64_wrap x = (x + 2 ^ 63) mod 2 ^ 64 - 2 ^ 63"

section \<open>Population model: \<^verbatim>\<open>slf_population_model\<close>\<close>

text \<open>\<^verbatim>\<open>int(x)\<close> on a float truncates towards zero.\<close>

definition py_int :: "rat \<Rightarrow> int" where
  "py_int x = (if 0 \<le> x then \<lfloor>x\<rfloor> else \<lceil>x\<rceil>)"

definition optimal_precipitation :: rat where
  "optimal_precipitation = 5"

text \<open>The literal \<^verbatim>\<open>0.01\<close> is the double nearest to 1/100.\<close>

definition growth_rate :: rat where
  "growth_rate = double (1 / 100)"

text \<open>\<^verbatim>\<open>max(0, min(1, (temperature[i] - 10) / 15))\<close>\<close>

definition temp_factor :: "rat \<Rightarrow> rat" where
  "temp_factor t = max 0 (min 1 (double_div (double_sub t 10) 15))"

text \<open>\<^verbatim>\<open>1 - min(1, abs(precipitation[i] - optimal_precipitation) / 10)\<close>\<close>

definition precip_factor :: "rat \<Rightarrow> rat" where
  "precip_factor p =
     double_sub 1 (min 1 (double_div \<bar>double_sub p optimal_precipitation\<bar> 10))"

text \<open>
  The product \<^verbatim>\<open>nymph_count[i-1] * growth_rate * temp_factor * precip_factor\<close>, evaluated
  from left to right, each multiplication rounded, and the cohort
  \<^verbatim>\<open>int(...)\<close> of it.
\<close>

definition cohort_product :: "int \<Rightarrow> rat \<Rightarrow> rat \<Rightarrow> rat" where
  "cohort_product n t p =
     double_mul (double_mul (double_mul (double_of_int n) growth_rate) (temp_factor t))
       (precip_factor p)"

definition cohort :: "int \<Rightarrow> rat \<Rightarrow> rat \<Rightarrow> int" where
  "cohort n t p = py_int (cohort_product n t p)"

text \<open>
  One iteration of the loop body: the pair (\<open>nymph_count[i]\<close>, \<open>adult_count[i]\<close>) from the
  day, the day's weather and the pair of the previous index. Both arrays start as zeros,
  so an entry that a branch does not assign is 0. Sums and differences of entries are
  64-bit; the store of \<^verbatim>\<open>initial_eggs\<close> raises when it does not fit.
\<close>

definition day_counts :: "int \<Rightarrow> int \<Rightarrow> rat \<Rightarrow> rat \<Rightarrow> int \<times> int \<Rightarrow> error + int \<times> int" where
  "day_counts initial_eggs day t p prev =
     (if day = 1 then
        (if in_int64 initial_eggs then Inr (initial_eggs, 0) else Inl OverflowError)
      else if day < 60 then Inr (int64_wrap (fst prev + cohort (fst prev) t p), 0)
      else if 60 \<le> day \<and> day < 120 then
        (let adult_growth = cohort (fst prev) t p
         in Inr (int64_wrap (fst prev - adult_growth), int64_wrap (snd prev + adult_growth)))
      else Inr (0, int64_wrap (snd prev + fst prev)))"

text \<open>
  The loop \<^verbatim>\<open>for i, day in enumerate(days)\<close>. The weather lists are consumed in step with
  the days; reading past the end of either raises. \<open>prev\<close> is the pair at index \<open>i - 1\<close>.
\<close>

fun population_loop ::
  "int \<Rightarrow> int list \<Rightarrow> rat list \<Rightarrow> rat list \<Rightarrow> int \<times> int \<Rightarrow> error + (int \<times> int) list" where
  "population_loop initial_eggs [] ts ps prev = Inr []"
| "population_loop initial_eggs (day # days) [] ps prev = Inl IndexError"
| "population_loop initial_eggs (day # days) (t # ts) [] prev = Inl IndexError"
| "population_loop initial_eggs (day # days) (t # ts) (p # ps) prev =
     (case day_counts initial_eggs day t p prev of
        Inl e \<Rightarrow> Inl e
      | Inr cur \<Rightarrow>
          (case population_loop initial_eggs days ts ps cur of
             Inl e \<Rightarrow> Inl e
           | Inr rest \<Rightarrow> Inr (cur # rest)))"

record population =
  days :: "int list"
  nymph_count :: "int list"
  adult_count :: "int list"

text \<open>
  At index 0 the source reads \<^verbatim>\<open>nymph_count[-1]\<close>, the last entry of an array that is
  still all zeros, so the loop starts from the pair (0, 0).
\<close>

definition slf_population_model ::
  "rat list \<Rightarrow> rat list \<Rightarrow> int \<Rightarrow> int \<Rightarrow> int \<Rightarrow> error + population" where
  "slf_population_model temperature precipitation initial_eggs start_day end_day =
     (let ds = [start_day..end_day]
      in case population_loop initial_eggs ds temperature precipitation (0, 0) of
           Inl e \<Rightarrow> Inl e
         | Inr counts \<Rightarrow>
             Inr \<lparr>days = ds, nymph_count = map fst counts, adult_count = map snd counts\<rparr>)"

text \<open>Counts on day \<open>d\<close> of a run that starts on day 1: the entry at index \<open>d - 1\<close>.\<close>

definition nymphs_on :: "population \<Rightarrow> nat \<Rightarrow> int" where
  "nymphs_on pop d = nymph_count pop ! (d - 1)"

definition adults_on :: "population \<Rightarrow> nat \<Rightarrow> int" where
  "adults_on pop d = adult_count pop ! (d - 1)"

text \<open>The weather of day \<open>d\<close>.\<close>

definition on_day :: "rat list \<Rightarrow> nat \<Rightarrow> rat" where
  "on_day xs d = xs ! (d - 1)"

text \<open>
  The pair of counts on day \<open>d\<close> of a run, or the error of the run; a day outside the
  arrays is an out-of-range read.
\<close>

definition counts_on :: "error + population \<Rightarrow> nat \<Rightarrow> error + int \<times> int" where
  "counts_on res d =
     (case res of
        Inl e \<Rightarrow> Inl e
      | Inr pop \<Rightarrow>
          if 1 \<le> d \<and> d \<le> length (nymph_count pop) \<and> d \<le> length (adult_count pop)
          then Inr (nymphs_on pop d, adults_on pop d)
          else Inl IndexError)"

text \<open>
  The example run of the notebook with 1000 eggs: constant temperature 25, constant
  precipitation 5, days 1 to 183.
\<close>

definition scenario_A :: "error + population" where
  "scenario_A = slf_population_model (replicate 183 25) (replicate 183 5) 1000 1 183"

text \<open>
  A reference computation for the optimal weather, temperature 25 and precipitation 5,
  where both factors are 1 and the cohort of a count \<open>n\<close> with \<open>0 \<le> n < 2 ^ 40\<close> is
  \<open>n div 100\<close>. It yields nothing outside that range. It is used to evaluate runs at
  constant optimal weather.
\<close>

fun optimal_loop :: "int \<Rightarrow> int list \<Rightarrow> int \<times> int \<Rightarrow> (int \<times> int) list option" where
  "optimal_loop initial_eggs [] prev = Some []"
| "optimal_loop initial_eggs (day # rest_days) prev =
     (if 0 \<le> fst prev \<and> fst prev < 2 ^ 40 \<and> in_int64 initial_eggs then
        (let g = fst prev div 100;
             cur = (if day = 1 then (initial_eggs, 0)
                    else if day < 60 then (int64_wrap (fst prev + g), 0)
                    else if day < 120 then (int64_wrap (fst prev - g), int64_wrap (snd prev + g))
                    else (0, int64_wrap (snd prev + fst prev)))
         in map_option ((#) cur) (optimal_loop initial_eggs rest_days cur))
      else None)"

section \<open>Product table and efficacy: \<^verbatim>\<open>insecticide_effectiveness\<close>\<close>

text \<open>
  One row of the product table \<^verbatim>\<open>df\<close>, with the columns the scheduler reads:
  \<^verbatim>\<open>'Product'\<close>, \<^verbatim>\<open>'Class'\<close>, \<^verbatim>\<open>'Effect on Adults'\<close>, \<^verbatim>\<open>'Effect on Nymphs'\<close> (the ratings
  after the mapping to numbers), \<^verbatim>\<open>'PHI (days)'\<close>, \<^verbatim>\<open>'Seasonal Max'\<close> and
  \<^verbatim>\<open>'Max Applications'\<close>. The table itself is a list, in file order. The file
  \<^verbatim>\<open>pesticides.csv\<close> is not part of the sources, so the table is a parameter; every
  entry is a number (a table with missing entries is outside this model).
\<close>

record product =
  Product :: string
  Class :: string
  Effect_on_Adults :: rat
  Effect_on_Nymphs :: rat
  PHI_days :: int
  Seasonal_Max :: rat
  Max_Applications :: int

text \<open>
  One row of the frame returned by \<^verbatim>\<open>insecticide_effectiveness\<close>: the columns
  \<^verbatim>\<open>'Product'\<close>, \<^verbatim>\<open>'Effect_on_Nymphs'\<close>, \<^verbatim>\<open>'Effect_on_Adults'\<close>, \<^verbatim>\<open>'Available_in'\<close> and
  \<^verbatim>\<open>'Available_until_Harvest'\<close>. The two effect columns are the ratings multiplied by
  the population counts passed in.
\<close>

record effectiveness =
  effect_Product :: string
  scaled_Effect_on_Nymphs :: rat
  scaled_Effect_on_Adults :: rat
  Available_in :: int
  Available_until_Harvest :: int

definition insecticide_effectiveness ::
  "product list \<Rightarrow> int \<Rightarrow> int \<Rightarrow> int \<Rightarrow> effectiveness list" where
  "insecticide_effectiveness df day nymph_population adult_population =
     map (\<lambda>p. \<lparr>effect_Product = Product p,
               scaled_Effect_on_Nymphs = Effect_on_Nymphs p * of_int nymph_population,
               scaled_Effect_on_Adults = Effect_on_Adults p * of_int adult_population,
               Available_in = max 0 (PHI_days p - day),
               Available_until_Harvest = max 0 (PHI_days p - day)\<rparr>) df"

section \<open>Scheduler: \<^verbatim>\<open>pesticide_application_strategy\<close>\<close>

text \<open>One row of \<^verbatim>\<open>application_schedule\<close>.\<close>

record schedule_row =
  day :: int
  row_temperature :: rat
  row_precipitation :: rat
  row_nymph_count :: int
  row_adult_count :: int
  pesticide :: "string option"
  application_rate :: rat

text \<open>
  The three dictionaries of the scheduler. \<^verbatim>\<open>last_use_day\<close> starts at minus infinity for
  every class (\<open>None\<close> here), the other two at 0 for every product. They are only ever
  read and written at the class and the product of a row of the table, which are keys
  from the start, so they are total functions.
\<close>

record ledger =
  last_use_day :: "string \<Rightarrow> int option"
  seasonal_usage :: "string \<Rightarrow> rat"
  seasonal_use_count :: "string \<Rightarrow> int"

definition initial_ledger :: ledger where
  "initial_ledger =
     \<lparr>last_use_day = (\<lambda>c. None), seasonal_usage = (\<lambda>p. 0), seasonal_use_count = (\<lambda>p. 0)\<rparr>"

definition nymph_threshold_per_squarefeet :: rat where
  "nymph_threshold_per_squarefeet = 15 * (6 / 100)"

definition adult_threshold_per_squarefeet :: rat where
  "adult_threshold_per_squarefeet = 5 * (6 / 100)"

text \<open>\<^verbatim>\<open>is_autumn\<close>: true unless \<^verbatim>\<open>row['day'] <= 92\<close>.\<close>

definition is_autumn :: "schedule_row \<Rightarrow> bool" where
  "is_autumn row = (\<not> day row \<le> 92)"

text \<open>The condition of the outer \<^verbatim>\<open>if\<close>: the day's pressure requires treatment.\<close>

definition treatment_required :: "schedule_row \<Rightarrow> bool" where
  "treatment_required row =
     ((\<not> is_autumn row \<and> nymph_threshold_per_squarefeet \<le> of_int (row_nymph_count row)) \<or>
      (is_autumn row \<and> adult_threshold_per_squarefeet \<le> of_int (row_adult_count row)))"

text \<open>
  \<^verbatim>\<open>time_since_last_use > pesticide['PHI (days)']\<close>, where
  \<^verbatim>\<open>time_since_last_use = row['day'] - last_use_day[pesticide['Class']]\<close> is infinite,
  and the comparison true, while the class has not been used.
\<close>

definition rotation_ok :: "ledger \<Rightarrow> int \<Rightarrow> product \<Rightarrow> bool" where
  "rotation_ok L d p =
     (case last_use_day L (Class p) of None \<Rightarrow> True | Some l \<Rightarrow> PHI_days p < d - l)"

text \<open>
  The condition of the inner \<^verbatim>\<open>if\<close>, with Python's precedence: \<^verbatim>\<open>and\<close> binds tighter than
  \<^verbatim>\<open>or\<close>, so the source's
  \<^verbatim>\<open>(is_autumn and A) or (not is_autumn and N) and T and U and C\<close>
  is \<^verbatim>\<open>(is_autumn and A) or ((not is_autumn and N) and T and U and C)\<close>.
\<close>

definition usage_condition :: "bool \<Rightarrow> ledger \<Rightarrow> int \<Rightarrow> product \<Rightarrow> bool" where
  "usage_condition autumn L d p =
     ((autumn \<and> 3 / 4 \<le> Effect_on_Adults p) \<or>
      ((\<not> autumn \<and> 3 / 4 \<le> Effect_on_Nymphs p) \<and>
       rotation_ok L d p \<and>
       seasonal_usage L (Product p) < Seasonal_Max p \<and>
       seasonal_use_count L (Product p) < Max_Applications p))"

text \<open>
  The body of \<^verbatim>\<open>if row['day'] <= harvest_day - pesticide['PHI (days)']\<close>: the rate is 6.4
  times the entry of the effectiveness frame for the first row named as the chosen
  product (\<^verbatim>\<open>.iloc[0]\<close> raises on an empty selection); the rate is recorded, the three
  dictionaries are updated, and then the usage is compared with the seasonal maximum of
  the first table row of that name. The result carries the dictionaries and the row as
  they are when the function returns or raises.
\<close>

definition apply_pesticide ::
  "product list \<Rightarrow> bool \<Rightarrow> product \<Rightarrow> ledger \<times> schedule_row \<Rightarrow>
   (error \<times> ledger \<times> schedule_row) + (ledger \<times> schedule_row)" where
  "apply_pesticide df autumn pesticide_row st =
     (let L = fst st; row = snd st;
          chosen_pesticide = Product pesticide_row;
          effectiveness_df =
            insecticide_effectiveness df (day row) (row_nymph_count row) (row_adult_count row)
      in case find (\<lambda>e. effect_Product e = chosen_pesticide) effectiveness_df of
           None \<Rightarrow> Inl (IndexError, L, row)
         | Some e \<Rightarrow>
             let efficacy =
                   (if \<not> autumn then scaled_Effect_on_Nymphs e else scaled_Effect_on_Adults e);
                 rate = (32 / 5) * efficacy;
                 row' = row\<lparr>application_rate := rate\<rparr>;
                 L' = L\<lparr>seasonal_usage :=
                          (seasonal_usage L)
                            (chosen_pesticide := seasonal_usage L chosen_pesticide + rate),
                        seasonal_use_count :=
                          (seasonal_use_count L)
                            (chosen_pesticide := seasonal_use_count L chosen_pesticide + 1),
                        last_use_day :=
                          (last_use_day L)(Class pesticide_row := Some (day row))\<rparr>
             in case find (\<lambda>q. Product q = chosen_pesticide) df of
                  None \<Rightarrow> Inl (IndexError, L', row')
                | Some q \<Rightarrow>
                    if Seasonal_Max q < seasonal_usage L' chosen_pesticide
                    then Inl (SeasonalMaxExceeded chosen_pesticide, L', row')
                    else Inr (L', row'))"

text \<open>
  The loop \<^verbatim>\<open>for i, pesticide in df.iterrows()\<close> over the remaining products. A product
  that passes the usage condition is written to the row's \<^verbatim>\<open>'pesticide'\<close> column
  before the harvest check; if that check fails the loop goes on. The loop ends by
  \<^verbatim>\<open>break\<close> after an application, by the seasonal-maximum \<^verbatim>\<open>raise\<close>, or by running out of
  products with \<^verbatim>\<open>pesticide_applied\<close> still false, which raises.
\<close>

fun scan ::
  "product list \<Rightarrow> int \<Rightarrow> bool \<Rightarrow> product list \<Rightarrow> ledger \<times> schedule_row \<Rightarrow>
   (error \<times> ledger \<times> schedule_row) + (ledger \<times> schedule_row)" where
  "scan df harvest_day autumn [] st = Inl (NoSuitablePesticide (day (snd st)), st)"
| "scan df harvest_day autumn (p # ps) st =
     (if usage_condition autumn (fst st) (day (snd st)) p then
        (let st' = (fst st, (snd st)\<lparr>pesticide := Some (Product p)\<rparr>)
         in if day (snd st) \<le> harvest_day - PHI_days p
            then apply_pesticide df autumn p st'
            else scan df harvest_day autumn ps st')
      else scan df harvest_day autumn ps st)"

text \<open>
  A product is applied by the loop exactly when it passes both tests of the loop body:
  the usage condition and the harvest check.
\<close>

definition qualifies :: "int \<Rightarrow> bool \<Rightarrow> ledger \<Rightarrow> int \<Rightarrow> product \<Rightarrow> bool" where
  "qualifies harvest_day autumn L d p =
     (usage_condition autumn L d p \<and> d \<le> harvest_day - PHI_days p)"

text \<open>One iteration of \<^verbatim>\<open>for index, row in application_schedule.iterrows()\<close>.\<close>

definition day_step ::
  "product list \<Rightarrow> int \<Rightarrow> ledger \<times> schedule_row \<Rightarrow>
   (error \<times> ledger \<times> schedule_row) + (ledger \<times> schedule_row)" where
  "day_step df harvest_day st =
     (if treatment_required (snd st)
      then scan df harvest_day (is_autumn (snd st)) df st
      else Inr st)"

text \<open>The loop over the rows of the schedule, threading the dictionaries.\<close>

fun run_days ::
  "product list \<Rightarrow> int \<Rightarrow> schedule_row list \<Rightarrow> ledger \<Rightarrow>
   (error \<times> ledger \<times> schedule_row) + (ledger \<times> schedule_row list)" where
  "run_days df harvest_day [] L = Inr (L, [])"
| "run_days df harvest_day (row # rows) L =
     (case day_step df harvest_day (L, row) of
        Inl err \<Rightarrow> Inl err
      | Inr st \<Rightarrow>
          (case run_days df harvest_day rows (fst st) of
             Inl err \<Rightarrow> Inl err
           | Inr res \<Rightarrow> Inr (fst res, snd st # snd res)))"

text \<open>
  The initial \<^verbatim>\<open>application_schedule\<close>. The data-frame constructor raises unless all
  columns have the length of \<^verbatim>\<open>range(1, season_length + 1)\<close>. The population is always
  computed with the defaults of \<^verbatim>\<open>slf_population_model\<close>: 10 eggs, days 1 to 183.
\<close>

definition initial_schedule ::
  "rat list \<Rightarrow> rat list \<Rightarrow> error + schedule_row list" where
  "initial_schedule temperature precipitation =
     (let season_length = length temperature
      in case slf_population_model temperature precipitation 10 1 183 of
           Inl e \<Rightarrow> Inl e
         | Inr slf_proportion \<Rightarrow>
             if length precipitation = season_length \<and>
                length (nymph_count slf_proportion) = season_length \<and>
                length (adult_count slf_proportion) = season_length
             then Inr (map (\<lambda>i. \<lparr>day = int i + 1,
                                  row_temperature = temperature ! i,
                                  row_precipitation = precipitation ! i,
                                  row_nymph_count = nymph_count slf_proportion ! i,
                                  row_adult_count = adult_count slf_proportion ! i,
                                  pesticide = None,
                                  application_rate = 0\<rparr>) [0..<season_length])
             else Inl ArraysLengthMismatch)"

text \<open>
  \<^verbatim>\<open>df['PHI (days)'].max()\<close>; on an empty table it is not a number, and the comparison
  of the final filter is false on every row.
\<close>

definition max_PHI :: "product list \<Rightarrow> int option" where
  "max_PHI df = (case df of [] \<Rightarrow> None | p # ps \<Rightarrow> Some (fold max (map PHI_days ps) (PHI_days p)))"

definition within_harvest_bound :: "int \<Rightarrow> product list \<Rightarrow> schedule_row \<Rightarrow> bool" where
  "within_harvest_bound harvest_day df row =
     (case max_PHI df of None \<Rightarrow> False | Some m \<Rightarrow> day row \<le> harvest_day - m)"

text \<open>
  The day loop of the scheduler on its real inputs, before the final filter: the error
  with the dictionaries and the row at the moment of the \<^verbatim>\<open>raise\<close>, or the final
  dictionaries and the full schedule.
\<close>

definition strategy_loop ::
  "rat list \<Rightarrow> rat list \<Rightarrow> int \<Rightarrow> product list \<Rightarrow>
   (error \<times> (ledger \<times> schedule_row) option) + (ledger \<times> schedule_row list)" where
  "strategy_loop temperature precipitation harvest_day df =
     (case initial_schedule temperature precipitation of
        Inl e \<Rightarrow> Inl (e, None)
      | Inr application_schedule \<Rightarrow>
          (case run_days df harvest_day application_schedule initial_ledger of
             Inl err \<Rightarrow> Inl (fst err, Some (snd err))
           | Inr res \<Rightarrow> Inr res))"

definition pesticide_application_strategy ::
  "rat list \<Rightarrow> rat list \<Rightarrow> int \<Rightarrow> product list \<Rightarrow> error + schedule_row list" where
  "pesticide_application_strategy temperature precipitation harvest_day df =
     (case strategy_loop temperature precipitation harvest_day df of
        Inl err \<Rightarrow> Inl (fst err)
      | Inr res \<Rightarrow> Inr (filter (within_harvest_bound harvest_day df) (snd res)))"

text \<open>The day of the row that was being processed when the day loop raised.\<close>

definition abort_day ::
  "(error \<times> (ledger \<times> schedule_row) option) + (ledger \<times> schedule_row list) \<Rightarrow> int option" where
  "abort_day res =
     (case res of
        Inl err \<Rightarrow> (case snd err of None \<Rightarrow> None | Some st \<Rightarrow> Some (day (snd st)))
      | Inr ok \<Rightarrow> None)"


text \<open>The days of the returned schedule, in order, or the error.\<close>

definition schedule_days :: "error + schedule_row list \<Rightarrow> error + int list" where
  "schedule_days res = (case res of Inl e \<Rightarrow> Inl e | Inr rows \<Rightarrow> Inr (map day rows))"


text \<open>
  The five conditions as the specification words them, for comparison with
  \<open>qualifies\<close>: the third one looks at the cumulative volume after adding the dose of
  this application, and all five apply in both seasons.
\<close>

definition claimed_conditions ::
  "int \<Rightarrow> schedule_row \<Rightarrow> ledger \<Rightarrow> rat \<Rightarrow> product \<Rightarrow> bool" where
  "claimed_conditions harvest_day row L dose p =
     (3 / 4 \<le> (if day row \<le> 92 then Effect_on_Nymphs p else Effect_on_Adults p) \<and>
      rotation_ok L (day row) p \<and>
      seasonal_usage L (Product p) + dose \<le> Seasonal_Max p \<and>
      seasonal_use_count L (Product p) < Max_Applications p \<and>
      day row \<le> harvest_day - PHI_days p)"

subsection \<open>Example inputs\<close>

text \<open>
  A product rated excellent on both stages, with pre-harvest interval 0, and a product
  that is never eligible (rated 0) with a pre-harvest interval of 50 days.
\<close>

definition example_product :: "string \<Rightarrow> string \<Rightarrow> rat \<Rightarrow> int \<Rightarrow> product" where
  "example_product name cls cap apps =
     \<lparr>Product = name, Class = cls, Effect_on_Adults = 1, Effect_on_Nymphs = 1, PHI_days = 0,
      Seasonal_Max = cap, Max_Applications = apps\<rparr>"

definition idle_product :: product where
  "idle_product =
     \<lparr>Product = ''B'', Class = ''D'', Effect_on_Adults = 0, Effect_on_Nymphs = 0, PHI_days = 50,
      Seasonal_Max = 100, Max_Applications = 2\<rparr>"

text \<open>
  The row of day \<open>d\<close> of the initial schedule at constant temperature 25 and
  precipitation 5, for a summer day (10 immature, no mature) and for a late day
  (no immature, 10 mature).
\<close>

definition summer_row :: "int \<Rightarrow> schedule_row" where
  "summer_row d =
     \<lparr>day = d, row_temperature = 25, row_precipitation = 5, row_nymph_count = 10,
      row_adult_count = 0, pesticide = None, application_rate = 0\<rparr>"

definition late_row :: "int \<Rightarrow> schedule_row" where
  "late_row d =
     \<lparr>day = d, row_temperature = 25, row_precipitation = 5, row_nymph_count = 0,
      row_adult_count = 10, pesticide = None, application_rate = 0\<rparr>"

section \<open>Outcome evaluator: \<^verbatim>\<open>calculate_profit\<close>\<close>

text \<open>
  The frame passed to \<^verbatim>\<open>calculate_profit\<close>: the rows of a schedule, labelled
  0, 1, ... as the scheduler returns them, and the column \<^verbatim>\<open>'harvest_day'\<close> if the frame
  has one. The schedule built by \<^verbatim>\<open>pesticide_application_strategy\<close> has no such
  column.
\<close>

record profit_frame =
  frame_rows :: "schedule_row list"
  harvest_day_column :: "int list option"

text \<open>
  An entry of the \<^verbatim>\<open>'pesticide'\<close> column as a condition: \<^verbatim>\<open>None\<close> and the empty string
  count as false.
\<close>

definition truthy :: "string option \<Rightarrow> bool" where
  "truthy x = (case x of None \<Rightarrow> False | Some s \<Rightarrow> s \<noteq> [])"

text \<open>
  The loop \<^verbatim>\<open>for i in range(season_length)\<close> over the three running totals. In
  \<^verbatim>\<open>df.loc[i, 'application_rate'] > 0 and i > df['harvest_day']\<close> the second operand is
  evaluated only when the first is true; it reads the column \<^verbatim>\<open>'harvest_day'\<close>, which
  raises if the frame has none, and otherwise compares \<^verbatim>\<open>i\<close> with the whole column, whose
  result cannot be the condition of an \<^verbatim>\<open>if\<close>. So the penalty total is never changed.
\<close>

fun profit_loop ::
  "rat \<Rightarrow> rat \<Rightarrow> rat \<Rightarrow> rat \<Rightarrow> int list option \<Rightarrow> schedule_row list \<Rightarrow>
   rat \<times> rat \<times> rat \<Rightarrow> error + rat \<times> rat \<times> rat" where
  "profit_loop pesticide_cost pesticide_area mold_growth_rate harvest_penalty_rate col [] totals =
     Inr totals"
| "profit_loop pesticide_cost pesticide_area mold_growth_rate harvest_penalty_rate col (row # rows)
     totals =
     (let total_pesticide_cost =
            (if truthy (pesticide row) then fst totals + pesticide_cost * pesticide_area
             else fst totals);
          total_mold_impact =
            fst (snd totals) +
            mold_growth_rate * (of_int (row_nymph_count row) + of_int (row_adult_count row));
          total_harvest_penalty = snd (snd totals)
      in if 0 < application_rate row then
           (case col of None \<Rightarrow> Inl KeyError | Some c \<Rightarrow> Inl AmbiguousTruthValue)
         else profit_loop pesticide_cost pesticide_area mold_growth_rate harvest_penalty_rate col rows
                (total_pesticide_cost, total_mold_impact, total_harvest_penalty))"

definition calculate_profit ::
  "rat \<Rightarrow> rat \<Rightarrow> profit_frame \<Rightarrow> rat \<Rightarrow> rat \<Rightarrow> rat \<Rightarrow> rat \<Rightarrow> rat \<Rightarrow> error + rat" where
  "calculate_profit vineyard_length depth df pesticide_cost base_yield price_per_grape
     mold_growth_rate harvest_penalty_rate =
     (let pesticide_area = vineyard_length * 4 * depth
      in case profit_loop pesticide_cost pesticide_area mold_growth_rate harvest_penalty_rate
                (harvest_day_column df) (frame_rows df) (0, 0, 0) of
           Inl e \<Rightarrow> Inl e
         | Inr totals \<Rightarrow>
             (let remaining_yield = max 0 (base_yield - fst (snd totals) - snd (snd totals));
                  total_profit = remaining_yield * price_per_grape - fst totals
              in Inr total_profit))"

section \<open>Properties of the rounding to doubles\<close>

text \<open>
  The rounding is monotone, odd, and leaves every number \<open>m * 2 ^ e\<close> with
  \<open>\<bar>m\<bar> < 2 ^ 53\<close> and \<open>e \<ge> - 1074\<close> as it is.
\<close>

lemma round_half_even_of_int: "round_half_even (of_int k) = k"
  by (simp add: round_half_even_def)

lemma round_half_even_bounds: "\<lfloor>x\<rfloor> \<le> round_half_even x" "round_half_even x \<le> \<lfloor>x\<rfloor> + 1"
  by (simp_all add: round_half_even_def Let_def)

lemma round_half_even_mono:
  assumes "x \<le> y"
  shows "round_half_even x \<le> round_half_even y"
proof (cases "\<lfloor>x\<rfloor> = \<lfloor>y\<rfloor>")
  case True
  with assms show ?thesis by (auto simp: round_half_even_def Let_def)
next
  case False
  with assms have "\<lfloor>x\<rfloor> + 1 \<le> \<lfloor>y\<rfloor>" using floor_mono[OF assms] by linarith
  with round_half_even_bounds(2)[of x] round_half_even_bounds(1)[of y]
  show ?thesis by linarith
qed

lemma bit_length_nonneg: "0 \<le> bit_length n"
  by (induction n rule: bit_length.induct) (subst bit_length.simps, simp)

lemma bit_length_bounds:
  "0 < n \<Longrightarrow> 2 ^ nat (bit_length n - 1) \<le> n \<and> n < 2 ^ nat (bit_length n)"
proof (induction n rule: bit_length.induct)
  case (1 n)
  show ?case
  proof (cases "n = 1")
    case True
    have "bit_length 1 = 1" by (simp add: bit_length.simps)
    with True show ?thesis by simp
  next
    case False
    with "1.prems" have h: "0 < n div 2" by linarith
    from "1.IH"[OF "1.prems" h] have
      ih: "2 ^ nat (bit_length (n div 2) - 1) \<le> n div 2" "n div 2 < 2 ^ nat (bit_length (n div 2))"
      by simp_all
    have b: "bit_length n = 1 + bit_length (n div 2)" using "1.prems" by (subst bit_length.simps) simp
    have pos: "1 \<le> bit_length (n div 2)"
      using h bit_length_nonneg[of "n div 2 div 2"] by (subst bit_length.simps) simp
    then have e1: "nat (bit_length n - 1) = Suc (nat (bit_length (n div 2) - 1))"
      and e2: "nat (bit_length n) = Suc (nat (bit_length (n div 2)))" unfolding b by linarith+
    from ih(1) have "2 * 2 ^ nat (bit_length (n div 2) - 1) \<le> n" by linarith
    moreover from ih(2) have "n < 2 * 2 ^ nat (bit_length (n div 2))" by linarith
    ultimately show ?thesis unfolding e1 e2 by simp
  qed
qed

lemma bit_length_pos: "0 < n \<Longrightarrow> 1 \<le> bit_length n"
  using bit_length_nonneg[of "n div 2"] by (subst bit_length.simps) simp

lemma powi_nonneg_of_int: "0 \<le> k \<Longrightarrow> (2::rat) powi k = of_int (2 ^ nat k)"
  by (simp add: power_int_def)

lemma binade_bounds:
  assumes "0 < x"
  shows "2 powi binade x \<le> x" and "x < 2 powi (binade x + 1)"
proof -
  show "2 powi binade x \<le> x"
  proof (cases "1 \<le> x")
    case True
    then have n: "0 < \<lfloor>x\<rfloor>" by linarith
    from bit_length_bounds[OF n] have "2 ^ nat (bit_length \<lfloor>x\<rfloor> - 1) \<le> \<lfloor>x\<rfloor>" by simp
    then have "(of_int (2 ^ nat (bit_length \<lfloor>x\<rfloor> - 1)) :: rat) \<le> of_int \<lfloor>x\<rfloor>"
      by (simp only: of_int_le_iff)
    also have "\<dots> \<le> x" by simp
    finally show ?thesis using True bit_length_pos[OF n]
      by (simp add: binade_def powi_nonneg_of_int)
  next
    case False
    let ?y = "1 / x"
    from False assms have y: "1 < ?y" by simp
    then have n: "0 < \<lceil>?y\<rceil> - 1" by linarith
    let ?m = "bit_length (\<lceil>?y\<rceil> - 1)"
    from bit_length_bounds[OF n] have "\<lceil>?y\<rceil> - 1 < 2 ^ nat ?m" by simp
    then have "\<lceil>?y\<rceil> \<le> 2 ^ nat ?m" by linarith
    then have "?y \<le> of_int (2 ^ nat ?m)" by (simp only: ceiling_le_iff)
    then have "1 / x \<le> 2 ^ nat ?m" by simp
    with assms have "1 \<le> x * 2 ^ nat ?m" by (simp add: field_simps)
    then have "1 / 2 ^ nat ?m \<le> x" by (simp add: field_simps)
    moreover have "(2::rat) powi (- ?m) = 1 / 2 ^ nat ?m"
      using bit_length_nonneg[of "\<lceil>?y\<rceil> - 1"]
      by (simp add: power_int_minus powi_nonneg_of_int field_simps)
    ultimately show ?thesis using False by (simp add: binade_def)
  qed
  show "x < 2 powi (binade x + 1)"
  proof (cases "1 \<le> x")
    case True
    then have n: "0 < \<lfloor>x\<rfloor>" by linarith
    from bit_length_bounds[OF n] have "\<lfloor>x\<rfloor> < 2 ^ nat (bit_length \<lfloor>x\<rfloor>)" by simp
    then have "x < of_int (2 ^ nat (bit_length \<lfloor>x\<rfloor>))" by (simp only: floor_less_iff)
    then show ?thesis using True bit_length_nonneg[of "\<lfloor>x\<rfloor>"]
      by (simp add: binade_def powi_nonneg_of_int)
  next
    case False
    let ?y = "1 / x"
    from False assms have y: "1 < ?y" by simp
    then have n: "0 < \<lceil>?y\<rceil> - 1" by linarith
    let ?m = "bit_length (\<lceil>?y\<rceil> - 1)"
    from bit_length_pos[OF n] have m: "1 \<le> ?m" .
    from bit_length_bounds[OF n] have "2 ^ nat (?m - 1) \<le> \<lceil>?y\<rceil> - 1" by simp
    then have "2 ^ nat (?m - 1) < \<lceil>?y\<rceil>" by linarith
    then have "of_int (2 ^ nat (?m - 1)) < ?y" by (simp only: less_ceiling_iff)
    then have "2 ^ nat (?m - 1) < 1 / x" by simp
    with assms have "x * 2 ^ nat (?m - 1) < 1" by (simp add: field_simps)
    then have "x < 1 / 2 ^ nat (?m - 1)" by (simp add: field_simps)
    moreover have "(2::rat) powi (- ?m + 1) = 1 / 2 ^ nat (?m - 1)"
    proof -
      have "- ?m + 1 = - (?m - 1)" by simp
      then have "(2::rat) powi (- ?m + 1) = inverse (2 powi (?m - 1))"
        by (simp only: power_int_minus)
      also have "\<dots> = 1 / 2 ^ nat (?m - 1)" using m
        by (simp add: powi_nonneg_of_int field_simps)
      finally show ?thesis .
    qed
    ultimately show ?thesis using False by (simp add: binade_def)
  qed
qed

lemma binade_unique:
  assumes "0 < x" "2 powi e \<le> x" "x < 2 powi (e + 1)"
  shows "binade x = e"
proof -
  note b = binade_bounds[OF assms(1)]
  from b(1) assms(3) have "(2::rat) powi binade x < 2 powi (e + 1)" by linarith
  then have "binade x < e + 1"
    using power_int_increasing[of "e + 1" "binade x" "2::rat"] by (cases "binade x < e + 1") auto
  moreover from assms(2) b(2) have "(2::rat) powi e < 2 powi (binade x + 1)" by linarith
  then have "e < binade x + 1"
    using power_int_increasing[of "binade x + 1" e "2::rat"] by (cases "e < binade x + 1") auto
  ultimately show ?thesis by linarith
qed

lemma binade_mono:
  assumes "0 < x" "x \<le> y"
  shows "binade x \<le> binade y"
proof -
  from assms have y: "0 < y" by linarith
  from binade_bounds(1)[OF assms(1)] binade_bounds(2)[OF y] assms(2)
  have "(2::rat) powi binade x < 2 powi (binade y + 1)" by linarith
  then have "binade x < binade y + 1"
    using power_int_increasing[of "binade y + 1" "binade x" "2::rat"]
    by (cases "binade x < binade y + 1") auto
  then show ?thesis by linarith
qed


lemma powi_pos: "0 < (2::rat) powi k"
  by simp

lemma powi_add: "(2::rat) powi (a + b) = 2 powi a * 2 powi b"
  by (rule power_int_add) simp

lemma powi_split: "(2::rat) powi a = 2 powi (a - b) * 2 powi b"
  by (simp flip: power_int_add)

lemma double_pos_nonneg: "0 < x \<Longrightarrow> 0 \<le> double_pos x"
proof -
  assume x: "0 < x"
  let ?q = "max (binade x - 52) (- 1074)"
  from x have "0 \<le> x / 2 powi ?q" by simp
  from round_half_even_mono[OF this] have "0 \<le> round_half_even (x / 2 powi ?q)"
    using round_half_even_of_int[of 0] by simp
  then show ?thesis by (simp add: double_pos_def Let_def)
qed

lemma double_pos_mono:
  assumes "0 < x" "x \<le> y"
  shows "double_pos x \<le> double_pos y"
proof -
  from assms have y: "0 < y" by linarith
  let ?qx = "max (binade x - 52) (- 1074)" and ?qy = "max (binade y - 52) (- 1074)"
  from binade_mono[OF assms] have bm: "binade x \<le> binade y" .
  then have qm: "?qx \<le> ?qy" by simp
  show ?thesis
  proof (cases "?qx = ?qy")
    case True
    from assms(2) have "x / 2 powi ?qy \<le> y / 2 powi ?qy" by (simp add: divide_right_mono)
    from round_half_even_mono[OF this]
    have "(of_int (round_half_even (x / 2 powi ?qy)) :: rat) \<le> of_int (round_half_even (y / 2 powi ?qy))"
      by simp
    then have "of_int (round_half_even (x / 2 powi ?qy)) * 2 powi ?qy \<le>
               of_int (round_half_even (y / 2 powi ?qy)) * (2::rat) powi ?qy"
      by (simp add: mult_right_mono)
    with True show ?thesis by (simp add: double_pos_def Let_def)
  next
    case False
    with qm have lt: "?qx < ?qy" by linarith
    then have qy: "?qy = binade y - 52" and bxy: "binade x < binade y" by linarith+
    let ?b = "binade y"
    have low: "2 powi ?b \<le> double_pos y"
    proof -
      define c :: int where "c = 2 ^ 52"
      have c: "(2::rat) powi (?b - ?qy) = of_int c" unfolding qy c_def by simp
      have "(2::rat) powi ?b = 2 powi (?b - ?qy) * 2 powi ?qy" by (rule powi_split)
      then have split: "(2::rat) powi ?b = of_int c * 2 powi ?qy" unfolding c .
      with binade_bounds(1)[OF y] have "of_int c * 2 powi ?qy \<le> y" by simp
      then have "of_int c \<le> y / 2 powi ?qy" by (simp add: field_simps)
      from round_half_even_mono[OF this]
      have "c \<le> round_half_even (y / 2 powi ?qy)" by (simp only: round_half_even_of_int)
      then have "(of_int c :: rat) \<le> of_int (round_half_even (y / 2 powi ?qy))"
        by (simp only: of_int_le_iff)
      then have "of_int c * 2 powi ?qy \<le>
                 of_int (round_half_even (y / 2 powi ?qy)) * (2::rat) powi ?qy"
        by (rule mult_right_mono) simp
      then have "2 powi ?b \<le> of_int (round_half_even (y / 2 powi ?qy)) * (2::rat) powi ?qy"
        unfolding split .
      then show ?thesis by (simp only: double_pos_def Let_def)
    qed
    have high: "double_pos x \<le> 2 powi ?b"
    proof -
      have d: "0 \<le> ?b - ?qx" using lt qy by linarith
      define c :: int where "c = 2 ^ nat (?b - ?qx)"
      have c: "(2::rat) powi (?b - ?qx) = of_int c"
        unfolding c_def by (rule powi_nonneg_of_int[OF d])
      have "(2::rat) powi ?b = 2 powi (?b - ?qx) * 2 powi ?qx" by (rule powi_split)
      then have split: "(2::rat) powi ?b = of_int c * 2 powi ?qx" unfolding c .
      from bxy have "binade x + 1 \<le> ?b" by simp
      then have "(2::rat) powi (binade x + 1) \<le> 2 powi ?b"
        by (intro power_int_increasing) simp_all
      with binade_bounds(2)[OF assms(1)] have "x \<le> 2 powi ?b" by linarith
      then have "x \<le> of_int c * 2 powi ?qx" unfolding split .
      then have "x / 2 powi ?qx \<le> of_int c" by (simp add: field_simps)
      from round_half_even_mono[OF this]
      have "round_half_even (x / 2 powi ?qx) \<le> c"
        by (simp only: round_half_even_of_int)
      then have "(of_int (round_half_even (x / 2 powi ?qx)) :: rat) \<le> of_int c"
        by (simp only: of_int_le_iff)
      then have "of_int (round_half_even (x / 2 powi ?qx)) * 2 powi ?qx \<le>
                 of_int c * (2::rat) powi ?qx"
        by (rule mult_right_mono) simp
      then have "of_int (round_half_even (x / 2 powi ?qx)) * 2 powi ?qx \<le> (2::rat) powi ?b"
        unfolding split .
      then show ?thesis by (simp only: double_pos_def Let_def)
    qed
    from high low show ?thesis by linarith
  qed
qed

lemma double_zero: "double 0 = 0"
  by (simp add: double_def)

lemma double_minus: "double (- x) = - double x"
  by (simp add: double_def)

lemma double_nonneg: "0 \<le> x \<Longrightarrow> 0 \<le> double x"
  using double_pos_nonneg[of x] by (simp add: double_def)

lemma double_mono:
  assumes "x \<le> y"
  shows "double x \<le> double y"
proof -
  consider "0 < x" | "x \<le> 0" "0 \<le> y" | "y < 0" by linarith
  then show ?thesis
  proof cases
    case 1
    with assms have "0 < y" by linarith
    with 1 double_pos_mono[OF 1 assms] show ?thesis by (simp add: double_def)
  next
    case 2
    from 2(1) have "0 \<le> - x" by simp
    from double_nonneg[OF this] have "double x \<le> 0" by (simp add: double_minus)
    with double_nonneg[OF 2(2)] show ?thesis by linarith
  next
    case 3
    with assms have "0 < - y" "- y \<le> - x" by simp_all
    from double_pos_mono[OF this] 3 assms show ?thesis by (simp add: double_def)
  qed
qed

lemma double_pos_representable:
  assumes m: "0 < m" "m < 2 ^ 53" and e: "- 1074 \<le> e"
  shows "double_pos (of_int m * 2 powi e) = of_int m * 2 powi e"
proof -
  let ?x = "of_int m * (2::rat) powi e"
  from m(1) have x: "0 < ?x" by simp
  let ?b = "binade ?x" and ?q = "max (binade ?x - 52) (- 1074)"
  have "(of_int m :: rat) < of_int (2 ^ 53)" using m(2) by (simp only: of_int_less_iff)
  then have "?x < of_int (2 ^ 53) * 2 powi e" by (simp add: mult_strict_right_mono)
  also have "(of_int (2 ^ 53) :: rat) * 2 powi e = 2 powi (53 + e)"
    by (subst powi_split[of "53 + e" e]) simp
  finally have "?x < 2 powi (53 + e)" .
  with binade_bounds(1)[OF x] have "(2::rat) powi ?b < 2 powi (53 + e)" by linarith
  then have "?b < 53 + e"
    using power_int_increasing[of "53 + e" ?b "2::rat"] by (cases "?b < 53 + e") auto
  with e have d: "0 \<le> e - ?q" by linarith
  have "?x / 2 powi ?q = of_int m * (2 powi e / 2 powi ?q)" by simp
  also have "(2::rat) powi e / 2 powi ?q = 2 powi (e - ?q)" by (simp add: power_int_diff)
  also have "\<dots> = of_int (2 ^ nat (e - ?q))" by (rule powi_nonneg_of_int[OF d])
  finally have "?x / 2 powi ?q = of_int (m * 2 ^ nat (e - ?q))" by simp
  then have "round_half_even (?x / 2 powi ?q) = m * 2 ^ nat (e - ?q)"
    by (simp only: round_half_even_of_int)
  then have "double_pos ?x = of_int (m * 2 ^ nat (e - ?q)) * 2 powi ?q"
    by (simp add: double_pos_def Let_def)
  also have "\<dots> = of_int m * (of_int (2 ^ nat (e - ?q)) * 2 powi ?q)" by simp
  also have "of_int (2 ^ nat (e - ?q)) * 2 powi ?q = (2::rat) powi e"
    by (subst powi_split[of e ?q]) (simp only: powi_nonneg_of_int[OF d])
  finally show ?thesis .
qed

lemma double_representable:
  assumes "\<bar>m\<bar> < 2 ^ 53" and "- 1074 \<le> e"
  shows "double (of_int m * 2 powi e) = of_int m * 2 powi e"
proof -
  consider "m = 0" | "0 < m" | "m < 0" by linarith
  then show ?thesis
  proof cases
    case 1
    then show ?thesis by (simp add: double_def)
  next
    case 2
    with assms(1) have "m < 2 ^ 53" by simp
    from double_pos_representable[OF 2 this assms(2)] 2 show ?thesis by (simp add: double_def)
  next
    case 3
    then have p: "0 < - m" by simp
    from 3 assms(1) have b: "- m < 2 ^ 53" by simp
    have neg: "of_int m * (2::rat) powi e < 0" using 3 by (simp add: mult_neg_pos)
    have eq: "of_int (- m) * (2::rat) powi e = - (of_int m * 2 powi e)" by simp
    from double_pos_representable[OF p b assms(2)]
    have "double_pos (- (of_int m * 2 powi e)) = - (of_int m * 2 powi e)" unfolding eq .
    with neg show ?thesis by (simp add: double_def)
  qed
qed

lemma double_of_int: "\<bar>m\<bar> < 2 ^ 53 \<Longrightarrow> double (of_int m) = of_int m"
  using double_representable[of m 0] by simp

lemma double_powi: "- 1074 \<le> k \<Longrightarrow> double (2 powi k) = 2 powi k"
  using double_representable[of 1 k] by simp

lemma double_one: "double 1 = 1"
  using double_of_int[of 1] by simp

lemma double_between:
  assumes "double lo = lo" "double hi = hi" "lo \<le> x" "x \<le> hi"
  shows "lo \<le> double x" and "double x \<le> hi"
  using double_mono[OF assms(3)] double_mono[OF assms(4)] assms(1,2) by simp_all

section \<open>Properties of 64-bit integers\<close>

lemma int64_wrap_id: "in_int64 x \<Longrightarrow> int64_wrap x = x"
  by (simp add: in_int64_def int64_wrap_def)

lemma int64_wrap_range: "in_int64 (int64_wrap x)"
proof -
  have "0 \<le> (x + 2 ^ 63) mod (2 ^ 64 :: int)" "(x + 2 ^ 63) mod (2 ^ 64 :: int) < 2 ^ 64"
    by simp_all
  then show ?thesis unfolding in_int64_def int64_wrap_def by simp
qed

section \<open>Properties of the cohort\<close>

text \<open>
  Both factors lie in [0, 1] and the literal 0.01 is at most 1/64, so the cohort of a
  non-negative count \<open>n\<close> is between 0 and \<open>n / 32\<close>; the cohort of \<open>- n\<close> is the negated
  cohort of \<open>n\<close>.
\<close>

lemma growth_rate_range: "0 \<le> growth_rate" "growth_rate \<le> 2 powi (- 6)"
proof -
  show "0 \<le> growth_rate" unfolding growth_rate_def by (rule double_nonneg) simp
  have "(1 / 100 :: rat) \<le> 2 powi (- 6)" by (simp add: power_int_minus)
  from double_mono[OF this] show "growth_rate \<le> 2 powi (- 6)"
    unfolding growth_rate_def by (simp only: double_powi)
qed

lemma temp_factor_range: "0 \<le> temp_factor t" "temp_factor t \<le> 1"
  by (simp_all add: temp_factor_def)

lemma precip_factor_range: "0 \<le> precip_factor p" "precip_factor p \<le> 1"
proof -
  let ?y = "min 1 (double_div \<bar>double_sub p optimal_precipitation\<bar> 10)"
  have "0 \<le> \<bar>double_sub p optimal_precipitation\<bar> / 10" by simp
  from double_nonneg[OF this] have y0: "0 \<le> ?y" by (simp add: double_div_def)
  have y1: "?y \<le> 1" by simp
  from y1 have "0 \<le> 1 - ?y" by simp
  from double_nonneg[OF this] show "0 \<le> precip_factor p"
    by (simp add: precip_factor_def double_sub_def)
  from y0 have "1 - ?y \<le> 1" by simp
  from double_mono[OF this] show "precip_factor p \<le> 1"
    by (simp add: precip_factor_def double_sub_def double_one)
qed

lemma double_mul_factor:
  assumes "0 \<le> x" "x \<le> 2 powi k" "- 1074 \<le> k" "0 \<le> f" "f \<le> 1"
  shows "0 \<le> double_mul x f" and "double_mul x f \<le> 2 powi k"
proof -
  from assms(1,4) have "0 \<le> x * f" by simp
  from double_nonneg[OF this] show "0 \<le> double_mul x f" by (simp add: double_mul_def)
  from assms(1,5) have "x * f \<le> x * 1" by (intro mult_left_mono) simp_all
  with assms(2) have "x * f \<le> 2 powi k" by simp
  from double_mono[OF this] show "double_mul x f \<le> 2 powi k"
    by (simp add: double_mul_def double_powi[OF assms(3)])
qed

lemma cohort_product_range:
  assumes "0 \<le> n"
  shows "0 \<le> cohort_product n t p" and "cohort_product n t p \<le> of_int n / 32"
proof -
  have "0 \<le> cohort_product n t p \<and> cohort_product n t p \<le> of_int n / 32"
  proof (cases "n = 0")
    case True
    then show ?thesis
      by (simp add: cohort_product_def double_of_int_def double_mul_def double_zero)
  next
    case False
    with assms have n: "0 < (of_int n :: rat)" "(1 :: rat) \<le> of_int n" by simp_all
    let ?e = "binade (of_int n)"
    from binade_mono[of 1 "of_int n"] n(2) have "binade 1 \<le> ?e" by simp
    moreover have "binade 1 = 0" by (rule binade_unique) simp_all
    ultimately have e: "0 \<le> ?e" by simp
    let ?x0 = "double_of_int n"
    from binade_bounds(2)[OF n(1)] have "(of_int n :: rat) \<le> 2 powi (?e + 1)" by simp
    from double_mono[OF this] e have x0h: "?x0 \<le> 2 powi (?e + 1)"
      by (simp add: double_of_int_def double_powi)
    have x0l: "0 \<le> ?x0" unfolding double_of_int_def using n(1) by (intro double_nonneg) simp
    let ?x1 = "double_mul ?x0 growth_rate"
    from x0l growth_rate_range(1) have "0 \<le> ?x0 * growth_rate" by simp
    from double_nonneg[OF this] have x1l: "0 \<le> ?x1" by (simp add: double_mul_def)
    have "?x0 * growth_rate \<le> 2 powi (?e + 1) * 2 powi (- 6)"
      using x0h x0l growth_rate_range by (intro mult_mono) simp_all
    also have "(2::rat) powi (?e + 1) * 2 powi (- 6) = 2 powi (?e - 5)"
      using powi_add[of "?e + 1" "- 6"] by simp
    finally have "?x0 * growth_rate \<le> 2 powi (?e - 5)" .
    from double_mono[OF this] e have x1h: "?x1 \<le> 2 powi (?e - 5)"
      by (simp add: double_mul_def double_powi)
    from e have k: "- 1074 \<le> ?e - 5" by simp
    let ?x2 = "double_mul ?x1 (temp_factor t)"
    note x2 = double_mul_factor[OF x1l x1h k temp_factor_range[of t]]
    note x3 = double_mul_factor[OF x2 k precip_factor_range[of p]]
    have "(2::rat) powi (?e - 5) = 2 powi ?e * 2 powi (- 5)"
      using powi_add[of ?e "- 5"] by simp
    also have "\<dots> = 2 powi ?e / 32" by (simp add: power_int_minus field_simps)
    also have "\<dots> \<le> of_int n / 32" using binade_bounds(1)[OF n(1)] by simp
    finally have "(2::rat) powi (?e - 5) \<le> of_int n / 32" .
    with x3 show ?thesis unfolding cohort_product_def by linarith
  qed
  then show "0 \<le> cohort_product n t p" and "cohort_product n t p \<le> of_int n / 32" by simp_all
qed

lemma cohort_range:
  assumes "0 \<le> n"
  shows "0 \<le> cohort n t p" and "32 * cohort n t p \<le> n"
proof -
  note x = cohort_product_range[OF assms, of t p]
  from x(1) show "0 \<le> cohort n t p" by (simp add: cohort_def py_int_def)
  have "of_int (cohort n t p) \<le> cohort_product n t p" using x(1) by (simp add: cohort_def py_int_def)
  with x(2) have "(of_int (cohort n t p) :: rat) \<le> of_int n / 32" by linarith
  then have "(of_int (32 * cohort n t p) :: rat) \<le> of_int n" by simp
  then show "32 * cohort n t p \<le> n" by (simp only: of_int_le_iff)
qed

lemma py_int_minus: "py_int (- x) = - py_int x"
  by (cases "x = 0") (auto simp: py_int_def ceiling_minus floor_minus)

lemma cohort_minus: "cohort (- n) t p = - cohort n t p"
  by (simp add: cohort_def cohort_product_def double_of_int_def double_mul_def double_minus
      py_int_minus)

lemma cohort_range_neg:
  assumes "n \<le> 0"
  shows "cohort n t p \<le> 0" and "n \<le> 32 * cohort n t p"
proof -
  from assms have "0 \<le> - n" by simp
  note c = cohort_range[OF this, of t p]
  from c show "cohort n t p \<le> 0" and "n \<le> 32 * cohort n t p"
    by (simp_all add: cohort_minus)
qed

lemma cohort_of_ten: "cohort 10 t p = 0"
  using cohort_range[of 10 t p] by simp

text \<open>
  At temperature 25 and precipitation 5 both factors are 1. The literal 0.01 is
  5764607523034235 / 2 ^ 59, a little above 1/100.
\<close>

lemma temp_factor_optimal: "temp_factor 25 = 1"
proof -
  have "double (25 - 10) = (15 :: rat)" using double_of_int[of 15] by simp
  then show ?thesis by (simp add: temp_factor_def double_sub_def double_div_def double_one)
qed

lemma precip_factor_optimal: "precip_factor 5 = 1"
  by (simp add: precip_factor_def optimal_precipitation_def double_sub_def double_div_def
      double_zero double_one)

lemma growth_rate_value: "growth_rate = 5764607523034235 / 2 ^ 59"
  unfolding growth_rate_def by code_simp

lemma cohort_product_optimal_between:
  assumes n: "\<bar>n\<bar> < 2 ^ 53"
    and lo: "double lo = lo" and hi: "double hi = hi"
    and b: "lo \<le> of_int n * growth_rate" "of_int n * growth_rate \<le> hi"
  shows "lo \<le> cohort_product n 25 5" and "cohort_product n 25 5 \<le> hi"
proof -
  have x0: "double_of_int n = of_int n" unfolding double_of_int_def by (rule double_of_int[OF n])
  note x1 = double_between[OF lo hi b]
  from x1 have "lo \<le> double (of_int n * growth_rate) * 1" "double (of_int n * growth_rate) * 1 \<le> hi"
    by simp_all
  note x2 = double_between[OF lo hi this]
  from x2 have "lo \<le> double (double (of_int n * growth_rate) * 1) * 1"
    "double (double (of_int n * growth_rate) * 1) * 1 \<le> hi" by simp_all
  note x3 = double_between[OF lo hi this]
  from x3 show "lo \<le> cohort_product n 25 5" and "cohort_product n 25 5 \<le> hi"
    by (simp_all add: cohort_product_def double_mul_def x0 temp_factor_optimal precip_factor_optimal)
qed

lemma cohort_optimal:
  assumes "0 \<le> n" "n < 2 ^ 40"
  shows "cohort n 25 5 = n div 100"
proof -
  let ?k = "n div 100"
  have k: "0 \<le> ?k" "?k * 100 \<le> n" "n \<le> ?k * 100 + 99" "?k < 2 ^ 40"
    using assms by (simp_all add: div_int_pos_iff)
  have n: "\<bar>n\<bar> < 2 ^ 53" using assms by simp
  have lo: "double (of_int ?k) = of_int ?k" using k(1,4) by (intro double_of_int) simp
  have "\<bar>128 * ?k + 127\<bar> < 2 ^ 53" using k(1,4) by simp
  from double_representable[OF this, of "- 7"]
  have hi: "double (of_int ?k + 127 / 128) = of_int ?k + 127 / 128"
    by (simp add: power_int_minus field_simps)
  have kr0: "(0 :: rat) \<le> of_int ?k" using k(1) by simp
  from k(2) have "(of_int (?k * 100) :: rat) \<le> of_int n" by (simp only: of_int_le_iff)
  then have kr1: "(of_int ?k :: rat) * 100 \<le> of_int n" by simp
  from k(3) have "(of_int n :: rat) \<le> of_int (?k * 100 + 99)" by (simp only: of_int_le_iff)
  then have kr2: "(of_int n :: rat) \<le> of_int ?k * 100 + 99" by simp
  from k(4) have "(of_int ?k :: rat) < of_int (2 ^ 40)" by (simp only: of_int_less_iff)
  then have kr3: "(of_int ?k :: rat) < 1099511627776" by simp
  note kr = kr0 kr1 kr2 kr3
  have b1: "of_int ?k \<le> of_int n * growth_rate"
    using kr unfolding growth_rate_value by simp
  have b2: "of_int n * growth_rate \<le> of_int ?k + 127 / 128"
    using kr unfolding growth_rate_value by simp
  note x = cohort_product_optimal_between[OF n lo hi b1 b2]
  from x k(1) have "\<lfloor>cohort_product n 25 5\<rfloor> = ?k"
    by (intro floor_unique) simp_all
  moreover from x(1) kr0 have "0 \<le> cohort_product n 25 5" by linarith
  ultimately show ?thesis by (simp add: cohort_def py_int_def)
qed

section \<open>Properties of the population loop\<close>

lemma day_counts_range:
  "day_counts e dy t p prev = Inr cur \<Longrightarrow> in_int64 (fst cur) \<and> in_int64 (snd cur)"
proof -
  have z: "in_int64 0" by (simp add: in_int64_def)
  assume "day_counts e dy t p prev = Inr cur"
  then show ?thesis
    by (auto simp: day_counts_def Let_def int64_wrap_range z split: if_splits)
qed

lemma day_counts_returns:
  "in_int64 e \<Longrightarrow> \<exists>cur. day_counts e dy t p prev = Inr cur"
  by (simp add: day_counts_def Let_def)

lemma population_loop_length:
  "population_loop e ds ts ps prev = Inr rs \<Longrightarrow> length rs = length ds"
proof (induction e ds ts ps prev arbitrary: rs rule: population_loop.induct)
  case (4 e day days t ts p ps prev)
  from "4.prems" obtain cur rest where
    cur: "day_counts e day t p prev = Inr cur"
    and rest: "population_loop e days ts ps cur = Inr rest" and rs: "rs = cur # rest"
    by (auto split: sum.splits)
  from "4.IH"[OF cur rest] show ?case by (simp add: rs)
qed auto

lemma population_loop_total:
  "in_int64 e \<Longrightarrow> length ds \<le> length ts \<Longrightarrow> length ds \<le> length ps \<Longrightarrow>
   \<exists>rs. population_loop e ds ts ps prev = Inr rs"
proof (induction e ds ts ps prev rule: population_loop.induct)
  case (4 e day days t ts p ps prev)
  from day_counts_returns[OF "4.prems"(1)] obtain cur where
    cur: "day_counts e day t p prev = Inr cur" by blast
  from "4.prems" have "length days \<le> length ts" "length days \<le> length ps" by simp_all
  from "4.IH"[OF cur "4.prems"(1) this] obtain rest where
    "population_loop e days ts ps cur = Inr rest" by blast
  with cur show ?case by simp
qed auto

lemma population_loop_nth:
  "population_loop e ds ts ps prev = Inr rs \<Longrightarrow> i < length ds \<Longrightarrow>
   day_counts e (ds ! i) (ts ! i) (ps ! i) (if i = 0 then prev else rs ! (i - 1)) = Inr (rs ! i)"
proof (induction e ds ts ps prev arbitrary: rs i rule: population_loop.induct)
  case (4 e day days t ts p ps prev)
  from "4.prems"(1) obtain cur rest where
    cur: "day_counts e day t p prev = Inr cur"
    and rest: "population_loop e days ts ps cur = Inr rest" and rs: "rs = cur # rest"
    by (auto split: sum.splits)
  show ?case
  proof (cases i)
    case 0
    then show ?thesis by (simp add: rs cur)
  next
    case (Suc j)
    with "4.prems"(2) have j: "j < length days" by simp
    from "4.IH"[OF cur rest j] show ?thesis
      by (cases j) (simp_all add: rs Suc)
  qed
qed auto

text \<open>Runs from day 1: the pair of day \<open>d\<close> from the pair of day \<open>d - 1\<close>.\<close>

lemma model_counts:
  assumes "slf_population_model T P e 1 N = Inr pop"
  obtains counts where "population_loop e [1..N] T P (0, 0) = Inr counts"
    and "length counts = nat N"
    and "nymph_count pop = map fst counts" and "adult_count pop = map snd counts"
proof -
  from assms obtain counts where c: "population_loop e [1..N] T P (0, 0) = Inr counts"
    and p: "pop = \<lparr>days = [1..N], nymph_count = map fst counts, adult_count = map snd counts\<rparr>"
    by (auto simp: slf_population_model_def Let_def split: sum.splits)
  from population_loop_length[OF c] have "length counts = nat N" by simp
  with c p that show thesis by simp
qed

lemma model_day:
  assumes m: "slf_population_model T P e 1 N = Inr pop" and d: "1 \<le> d" "int d \<le> N"
  shows "day_counts e (int d) (on_day T d) (on_day P d)
           (if d = 1 then (0, 0) else (nymphs_on pop (d - 1), adults_on pop (d - 1))) =
         Inr (nymphs_on pop d, adults_on pop d)"
proof -
  from m obtain counts where c: "population_loop e [1..N] T P (0, 0) = Inr counts"
    and len: "length counts = nat N"
    and n: "nymph_count pop = map fst counts" and a: "adult_count pop = map snd counts"
    by (rule model_counts)
  from d have i: "d - 1 < length [1..N]" by simp
  from d have day: "[1..N] ! (d - 1) = int d" by (simp add: nth_upto)
  from d len have lt: "d - 1 < length counts" "d - 1 - 1 < length counts" by simp_all
  from population_loop_nth[OF c i] day
  have "day_counts e (int d) (T ! (d - 1)) (P ! (d - 1))
          (if d - 1 = 0 then (0, 0) else counts ! (d - 1 - 1)) = Inr (counts ! (d - 1))" by simp
  moreover from d have "(d - 1 = 0) = (d = 1)" by auto
  ultimately have step: "day_counts e (int d) (T ! (d - 1)) (P ! (d - 1))
          (if d = 1 then (0, 0) else counts ! (d - 1 - 1)) = Inr (counts ! (d - 1))" by simp
  have cur: "(nymphs_on pop d, adults_on pop d) = counts ! (d - 1)"
    using lt by (simp add: nymphs_on_def adults_on_def n a)
  have prev: "(nymphs_on pop (d - 1), adults_on pop (d - 1)) = counts ! (d - 1 - 1)"
    using lt by (simp add: nymphs_on_def adults_on_def n a)
  show ?thesis unfolding cur prev on_day_def by (rule step)
qed

lemma model_returns:
  assumes "in_int64 e" "nat N \<le> length T" "nat N \<le> length P"
  shows "\<exists>pop. slf_population_model T P e 1 N = Inr pop"
proof -
  from assms have "length [1..N] \<le> length T" "length [1..N] \<le> length P" by simp_all
  from population_loop_total[OF assms(1) this] obtain rs where
    "population_loop e [1..N] T P (0, 0) = Inr rs" by blast
  then show ?thesis by (simp add: slf_population_model_def Let_def)
qed

lemma model_overflow:
  assumes "\<not> in_int64 e" "1 \<le> N" "nat N \<le> length T" "nat N \<le> length P"
  shows "slf_population_model T P e 1 N = Inl OverflowError"
proof -
  from assms(2) have u: "[1..N] = 1 # [2..N]" by (simp add: upto_rec1)
  from assms(2,3) obtain t ts where T: "T = t # ts" by (cases T) auto
  from assms(2,4) obtain p ps where P: "P = p # ps" by (cases P) auto
  from assms(1) show ?thesis
    by (simp add: slf_population_model_def Let_def u T P day_counts_def)
qed

lemma model_in_int64:
  assumes m: "slf_population_model T P e 1 N = Inr pop" and d: "1 \<le> d" "int d \<le> N"
  shows "in_int64 (nymphs_on pop d)" and "in_int64 (adults_on pop d)"
  using day_counts_range[OF model_day[OF m d]] by simp_all

lemma early_day:
  assumes m: "slf_population_model T P e 1 N = Inr pop"
    and d: "2 \<le> d" "d \<le> 59" "int d \<le> N"
  shows "nymphs_on pop d =
           int64_wrap (nymphs_on pop (d - 1) + cohort (nymphs_on pop (d - 1)) (on_day T d) (on_day P d))"
    and "adults_on pop d = 0"
proof -
  from d have "1 \<le> d" by simp
  from model_day[OF m this d(3)] d(1,2)
  show "nymphs_on pop d =
           int64_wrap (nymphs_on pop (d - 1) + cohort (nymphs_on pop (d - 1)) (on_day T d) (on_day P d))"
    and "adults_on pop d = 0" by (simp_all add: day_counts_def)
qed

lemma first_day:
  assumes m: "slf_population_model T P e 1 N = Inr pop" and d: "1 \<le> N"
  shows "nymphs_on pop 1 = e" and "adults_on pop 1 = 0" and "in_int64 e"
proof -
  from d have "int 1 \<le> N" by simp
  from model_day[OF m _ this]
  show "nymphs_on pop 1 = e" and "adults_on pop 1 = 0" and "in_int64 e"
    by (simp_all add: day_counts_def split: if_splits)
qed

lemma transition_day:
  assumes m: "slf_population_model T P e 1 N = Inr pop"
    and d: "60 \<le> d" "d < 120" "int d \<le> N"
  shows "nymphs_on pop d =
           int64_wrap (nymphs_on pop (d - 1) - cohort (nymphs_on pop (d - 1)) (on_day T d) (on_day P d))"
    and "adults_on pop d =
           int64_wrap (adults_on pop (d - 1) + cohort (nymphs_on pop (d - 1)) (on_day T d) (on_day P d))"
proof -
  from d have "1 \<le> d" by simp
  from model_day[OF m this d(3)] d(1,2)
  show "nymphs_on pop d =
           int64_wrap (nymphs_on pop (d - 1) - cohort (nymphs_on pop (d - 1)) (on_day T d) (on_day P d))"
    and "adults_on pop d =
           int64_wrap (adults_on pop (d - 1) + cohort (nymphs_on pop (d - 1)) (on_day T d) (on_day P d))"
    by (simp_all add: day_counts_def Let_def)
qed

lemma late_day:
  assumes m: "slf_population_model T P e 1 N = Inr pop"
    and d: "120 \<le> d" "int d \<le> N"
  shows "nymphs_on pop d = 0"
    and "adults_on pop d = int64_wrap (adults_on pop (d - 1) + nymphs_on pop (d - 1))"
proof -
  from d have "1 \<le> d" by simp
  from model_day[OF m this d(2)] d(1)
  show "nymphs_on pop d = 0"
    and "adults_on pop d = int64_wrap (adults_on pop (d - 1) + nymphs_on pop (d - 1))"
    by (simp_all add: day_counts_def)
qed

text \<open>
  From day 59 on the total is the immature count of day 59, and both counts lie between
  0 and that count: nothing wraps.
\<close>

lemma total_from_day_59:
  assumes m: "slf_population_model T P e 1 N = Inr pop"
  shows "59 \<le> d \<Longrightarrow> int d \<le> N \<Longrightarrow>
         nymphs_on pop d + adults_on pop d = nymphs_on pop 59 \<and>
         ((0 \<le> nymphs_on pop d \<and> 0 \<le> adults_on pop d) \<or>
          (nymphs_on pop d \<le> 0 \<and> adults_on pop d \<le> 0))"
proof (induction d)
  case 0
  then show ?case by simp
next
  case (Suc k)
  show ?case
  proof (cases "Suc k = 59")
    case True
    from Suc.prems True have "adults_on pop 59 = 0"
      by (intro early_day(2)[OF m]) simp_all
    with True show ?thesis by auto
  next
    case False
    with Suc.prems have k: "59 \<le> k" "int k \<le> N" "60 \<le> Suc k" by simp_all
    from k(1,2) have r59: "in_int64 (nymphs_on pop 59)"
      by (intro model_in_int64(1)[OF m]) simp_all
    let ?n = "nymphs_on pop k" and ?a = "adults_on pop k"
    from Suc.IH[OF k(1,2)] have tot: "?n + ?a = nymphs_on pop 59"
      and sgn: "(0 \<le> ?n \<and> 0 \<le> ?a) \<or> (?n \<le> 0 \<and> ?a \<le> 0)" by simp_all
    let ?g = "cohort ?n (on_day T (Suc k)) (on_day P (Suc k))"
    have g: "(0 \<le> ?n \<longrightarrow> 0 \<le> ?g \<and> ?g \<le> ?n) \<and> (?n \<le> 0 \<longrightarrow> ?g \<le> 0 \<and> ?n \<le> ?g)"
      using cohort_range[of ?n "on_day T (Suc k)" "on_day P (Suc k)"]
        cohort_range_neg[of ?n "on_day T (Suc k)" "on_day P (Suc k)"] by auto
    show ?thesis
    proof (cases "Suc k < 120")
      case True
      from transition_day[OF m k(3) True Suc.prems(2)]
      have n': "nymphs_on pop (Suc k) = int64_wrap (?n - ?g)"
        and a': "adults_on pop (Suc k) = int64_wrap (?a + ?g)" by simp_all
      have "in_int64 (?n - ?g)" "in_int64 (?a + ?g)"
        using tot sgn g r59 unfolding in_int64_def by auto
      then have "int64_wrap (?n - ?g) = ?n - ?g" "int64_wrap (?a + ?g) = ?a + ?g"
        by (simp_all add: int64_wrap_id)
      with n' a' tot sgn g show ?thesis by auto
    next
      case False
      then have l: "120 \<le> Suc k" by simp
      from late_day[OF m l Suc.prems(2)]
      have n': "nymphs_on pop (Suc k) = 0"
        and a': "adults_on pop (Suc k) = int64_wrap (?a + ?n)" by simp_all
      have "in_int64 (?a + ?n)" using tot r59 by (simp add: add.commute)
      then have "int64_wrap (?a + ?n) = ?a + ?n" by (rule int64_wrap_id)
      with n' a' tot sgn show ?thesis by auto
    qed
  qed
qed

text \<open>The reference computation agrees with the loop at optimal weather.\<close>

lemma optimal_loop_correct:
  "optimal_loop e ds prev = Some rs \<Longrightarrow>
   population_loop e ds (replicate (length ds) 25) (replicate (length ds) 5) prev = Inr rs"
proof (induction ds arbitrary: prev rs)
  case Nil
  then show ?case by simp
next
  case (Cons day ds)
  let ?g = "fst prev div 100"
  let ?cur = "(if day = 1 then (e, 0)
                    else if day < 60 then (int64_wrap (fst prev + ?g), 0)
                    else if day < 120 then (int64_wrap (fst prev - ?g), int64_wrap (snd prev + ?g))
                    else (0, int64_wrap (snd prev + fst prev)))"
  from Cons.prems have guard: "0 \<le> fst prev" "fst prev < 2 ^ 40" "in_int64 e"
    by (auto split: if_splits)
  with Cons.prems obtain rest where rest: "optimal_loop e ds ?cur = Some rest"
    and rs: "rs = ?cur # rest" by (auto simp: Let_def)
  have "day_counts e day 25 5 prev = Inr ?cur"
    using guard by (simp add: day_counts_def Let_def cohort_optimal)
  with Cons.IH[OF rest] rs show ?case by simp
qed

text \<open>
  With at most \<open>2 ^ 60\<close> eggs the early phase stays within 64 bits: the count of day
  \<open>d\<close> is at most \<open>(33 / 32) ^ (d - 1)\<close> times the eggs, which is below 6 times.
\<close>

lemma early_growth_factor:
  assumes "k \<le> 58"
  shows "(33 / 32 :: rat) ^ k * 2 ^ 60 < 2 ^ 63"
proof -
  have "(33 / 32 :: rat) ^ k \<le> (33 / 32) ^ 58"
    using assms by (intro power_increasing) simp_all
  then have "(33 / 32 :: rat) ^ k * 2 ^ 60 \<le> (33 / 32) ^ 58 * 2 ^ 60"
    by (intro mult_right_mono) simp_all
  also have "(33 / 32 :: rat) ^ 58 * 2 ^ 60 < 2 ^ 63" by (simp add: power_divide)
  finally show ?thesis .
qed

lemma early_bound:
  assumes m: "slf_population_model T P e 1 N = Inr pop" and e: "0 \<le> e" "e \<le> 2 ^ 60"
  shows "1 \<le> d \<Longrightarrow> d \<le> 59 \<Longrightarrow> int d \<le> N \<Longrightarrow>
         0 \<le> nymphs_on pop d \<and>
         (of_int (nymphs_on pop d) :: rat) \<le> (33 / 32) ^ (d - 1) * of_int e \<and>
         (2 \<le> d \<longrightarrow>
            nymphs_on pop d =
              nymphs_on pop (d - 1) +
              cohort (nymphs_on pop (d - 1)) (on_day T d) (on_day P d))"
proof (induction d)
  case 0
  then show ?case by simp
next
  case (Suc k)
  show ?case
  proof (cases "k = 0")
    case True
    with Suc.prems have "1 \<le> N" by simp
    from first_day(1)[OF m this] e True show ?thesis by simp
  next
    case False
    with Suc.prems have k: "1 \<le> k" "k \<le> 59" "int k \<le> N" "2 \<le> Suc k" "k \<le> 58" by simp_all
    let ?n = "nymphs_on pop k"
    let ?g = "cohort ?n (on_day T (Suc k)) (on_day P (Suc k))"
    from Suc.IH[OF k(1-3)] have n0: "0 \<le> ?n"
      and nb: "(of_int ?n :: rat) \<le> (33 / 32) ^ (k - 1) * of_int e" by simp_all
    from cohort_range[OF n0] have g: "0 \<le> ?g" "32 * ?g \<le> ?n" by simp_all
    from early_day(1)[OF m k(4) Suc.prems(2,3)]
    have n': "nymphs_on pop (Suc k) = int64_wrap (?n + ?g)" by simp
    from g(2) have "(of_int (32 * ?g) :: rat) \<le> of_int ?n" by (simp only: of_int_le_iff)
    then have gr: "(of_int ?g :: rat) \<le> of_int ?n / 32" by simp
    have "(of_int (?n + ?g) :: rat) \<le> of_int ?n * (33 / 32)" using gr by simp
    also have "\<dots> \<le> ((33 / 32) ^ (k - 1) * of_int e) * (33 / 32)"
      using nb by (intro mult_right_mono) simp_all
    also have "\<dots> = (33 / 32) ^ k * of_int e"
      using k(1) by (cases k) simp_all
    finally have sb: "(of_int (?n + ?g) :: rat) \<le> (33 / 32) ^ k * of_int e" .
    have "(of_int e :: rat) \<le> of_int (2 ^ 60)" using e(2) by (simp only: of_int_le_iff)
    then have "(of_int e :: rat) \<le> 2 ^ 60" by simp
    then have "(33 / 32 :: rat) ^ k * of_int e \<le> (33 / 32) ^ k * 2 ^ 60"
      by (intro mult_left_mono) simp_all
    with sb have "(of_int (?n + ?g) :: rat) \<le> (33 / 32) ^ k * 2 ^ 60" by (rule order_trans)
    also note early_growth_factor[OF k(5)]
    finally have "(of_int (?n + ?g) :: rat) < 2 ^ 63" .
    then have "(of_int (?n + ?g) :: rat) < of_int (2 ^ 63)" by simp
    then have "?n + ?g < 2 ^ 63" by (simp only: of_int_less_iff)
    with n0 g(1) have "in_int64 (?n + ?g)" by (simp add: in_int64_def)
    then have "int64_wrap (?n + ?g) = ?n + ?g" by (rule int64_wrap_id)
    with n' n0 g(1) sb show ?thesis by simp
  qed
qed

lemma counts_nonneg:
  assumes m: "slf_population_model T P e 1 N = Inr pop" and e: "0 \<le> e" "e \<le> 2 ^ 60"
    and d: "1 \<le> d" "int d \<le> N"
  shows "0 \<le> nymphs_on pop d" and "0 \<le> adults_on pop d"
proof -
  have "0 \<le> nymphs_on pop d \<and> 0 \<le> adults_on pop d"
  proof (cases "d \<le> 58")
    case True
    from early_bound[OF m e d(1) _ d(2)] True have n: "0 \<le> nymphs_on pop d" by simp
    have "adults_on pop d = 0"
    proof (cases "d = 1")
      case True
      with d(2) have "1 \<le> N" by simp
      from first_day(2)[OF m this] True show ?thesis by simp
    next
      case False
      with d(1) \<open>d \<le> 58\<close> have "2 \<le> d" "d \<le> 59" by simp_all
      from early_day(2)[OF m this d(2)] show ?thesis .
    qed
    with n show ?thesis by simp
  next
    case False
    then have l: "59 \<le> d" by simp
    with d(2) have "int 59 \<le> N" by simp
    from early_bound[OF m e _ _ this] have "0 \<le> nymphs_on pop 59" by simp
    with total_from_day_59[OF m l d(2)] show ?thesis by auto
  qed
  then show "0 \<le> nymphs_on pop d" and "0 \<le> adults_on pop d" by simp_all
qed

text \<open>From day 60 on the daily total is that of the day before, without wrap-around.\<close>

lemma total_preserved:
  assumes m: "slf_population_model T P e 1 N = Inr pop" and d: "60 \<le> d" "int d \<le> N"
  shows "nymphs_on pop d + adults_on pop d = nymphs_on pop (d - 1) + adults_on pop (d - 1)"
proof -
  from d have "59 \<le> d" "59 \<le> d - 1" "int (d - 1) \<le> N" by simp_all
  from total_from_day_59[OF m this(1) d(2)] total_from_day_59[OF m this(2,3)]
  show ?thesis by simp
qed

text \<open>A run at optimal weather is the reference computation.\<close>

lemma model_optimal:
  assumes "optimal_loop e [1..N] (0, 0) = Some rs"
  shows "slf_population_model (replicate (nat N) 25) (replicate (nat N) 5) e 1 N =
           Inr \<lparr>days = [1..N], nymph_count = map fst rs, adult_count = map snd rs\<rparr>"
  using optimal_loop_correct[OF assms] by (simp add: slf_population_model_def Let_def)

lemma scenario_A_run:
  "\<exists>rs. optimal_loop 1000 [1..183] (0, 0) = Some rs \<and>
        scenario_A = Inr \<lparr>days = [1..183], nymph_count = map fst rs, adult_count = map snd rs\<rparr>"
proof -
  have "optimal_loop 1000 [1..183] (0, 0) \<noteq> None" by code_simp
  then obtain rs where rs: "optimal_loop 1000 [1..183] (0, 0) = Some rs" by blast
  from model_optimal[OF rs] have
    "scenario_A = Inr \<lparr>days = [1..183], nymph_count = map fst rs, adult_count = map snd rs\<rparr>"
    by (simp add: scenario_A_def)
  with rs show ?thesis by blast
qed

section \<open>Properties of the scheduler\<close>

text \<open>
  The scheduler always runs the population model with 10 eggs on days 1 to 183. The
  daily cohort of 10 individuals truncates to 0 in any weather, so the counts do not
  depend on the weather: 10 immature up to day 119, then 10 mature.
\<close>

lemma default_population_day:
  assumes m: "slf_population_model T P 10 1 183 = Inr pop"
  shows "1 \<le> d \<Longrightarrow> d \<le> 183 \<Longrightarrow>
         nymphs_on pop d = (if d < 120 then 10 else 0) \<and>
         adults_on pop d = (if d < 120 then 0 else 10)"
proof (induction d)
  case 0
  then show ?case by simp
next
  case (Suc k)
  from Suc.prems have b: "1 \<le> Suc k" "int (Suc k) \<le> 183" by simp_all
  show ?case
  proof (cases "k = 0")
    case True
    with model_day[OF m b] show ?thesis by (auto simp: day_counts_def split: if_splits)
  next
    case False
    with Suc have ih: "nymphs_on pop k = (if k < 120 then 10 else 0)"
      "adults_on pop k = (if k < 120 then 0 else 10)" by simp_all
    from model_day[OF m b] False
    have "day_counts 10 (int (Suc k)) (on_day T (Suc k)) (on_day P (Suc k))
            (nymphs_on pop k, adults_on pop k) =
          Inr (nymphs_on pop (Suc k), adults_on pop (Suc k))" by simp
    then show ?thesis using False ih
      by (auto simp: day_counts_def Let_def cohort_of_ten int64_wrap_def split: if_splits)
  qed
qed

lemma default_population:
  assumes "183 \<le> length T" "183 \<le> length P"
  shows "\<exists>pop. slf_population_model T P 10 1 183 = Inr pop \<and>
           length (nymph_count pop) = 183 \<and> length (adult_count pop) = 183 \<and>
           (\<forall>i<183. nymph_count pop ! i = (if i < 119 then 10 else 0) \<and>
                     adult_count pop ! i = (if i < 119 then 0 else 10))"
proof -
  from assms have "nat 183 \<le> length T" "nat 183 \<le> length P" by simp_all
  moreover have "in_int64 10" by (simp add: in_int64_def)
  ultimately obtain pop where
    m: "slf_population_model T P 10 1 183 = Inr pop"
    using model_returns[of 10 183 T P] by blast
  from m obtain counts where len: "length counts = nat 183"
    and n: "nymph_count pop = map fst counts" and a: "adult_count pop = map snd counts"
    by (rule model_counts)
  have "nymph_count pop ! i = (if i < 119 then 10 else 0) \<and>
        adult_count pop ! i = (if i < 119 then 0 else 10)" if "i < 183" for i
    using default_population_day[OF m, of "Suc i"] that
    by (simp add: nymphs_on_def adults_on_def)
  with m len n a show ?thesis by auto
qed

lemma initial_schedule_rows:
  assumes "length T = 183" "length P = 183"
  shows "initial_schedule T P =
           Inr (map (\<lambda>i. \<lparr>day = int i + 1,
                            row_temperature = T ! i,
                            row_precipitation = P ! i,
                            row_nymph_count = (if i < 119 then 10 else 0),
                            row_adult_count = (if i < 119 then 0 else 10),
                            pesticide = None,
                            application_rate = 0\<rparr>) [0..<183])"
proof -
  from assms have "183 \<le> length T" "183 \<le> length P" by simp_all
  from default_population[OF this] obtain pop where
    m: "slf_population_model T P 10 1 183 = Inr pop"
    and l: "length (nymph_count pop) = 183" "length (adult_count pop) = 183"
    and v: "\<forall>i<183. nymph_count pop ! i = (if i < 119 then 10 else 0) \<and>
                     adult_count pop ! i = (if i < 119 then 0 else 10)"
    by blast
  from v show ?thesis
    by (simp add: initial_schedule_def m l assms Let_def del: upt_rec_numeral cong: map_cong)
qed

lemma initial_schedule_length:
  assumes "initial_schedule T P = Inr rows"
  shows "length T = 183" and "length P = 183"
proof -
  from assms obtain pop where m: "slf_population_model T P 10 1 183 = Inr pop"
    and l: "length P = length T" "length (nymph_count pop) = length T"
    by (auto simp: initial_schedule_def Let_def split: sum.splits if_splits)
  from m obtain counts where "population_loop 10 [1..183] T P (0, 0) = Inr counts"
    and "length counts = nat 183" and "nymph_count pop = map fst counts"
    and "adult_count pop = map snd counts"
    by (rule model_counts)
  with l show "length T = 183" and "length P = 183" by simp_all
qed

text \<open>Lookups by product name, and the inner loop as a search for the first product that qualifies.\<close>

lemma find_Some_in_set: "find Q xs = Some x \<Longrightarrow> x \<in> set xs \<and> Q x"
  by (induction xs) (auto split: if_splits)

lemma find_by_name:
  "distinct (map Product df) \<Longrightarrow> p \<in> set df \<Longrightarrow> find (\<lambda>q. Product q = Product p) df = Some p"
proof (induction df)
  case Nil
  then show ?case by simp
next
  case (Cons a df)
  then show ?case by (cases "a = p") (auto simp: image_iff)
qed

lemma find_effectiveness:
  "find (\<lambda>e. effect_Product e = c) (insecticide_effectiveness df d n a) =
   map_option (\<lambda>p. \<lparr>effect_Product = Product p,
               scaled_Effect_on_Nymphs = Effect_on_Nymphs p * of_int n,
               scaled_Effect_on_Adults = Effect_on_Adults p * of_int a,
               Available_in = max 0 (PHI_days p - d),
               Available_until_Harvest = max 0 (PHI_days p - d)\<rparr>)
     (find (\<lambda>q. Product q = c) df)"
  unfolding insecticide_effectiveness_def
  by (induction df) simp_all

lemma apply_pesticide_named:
  assumes "find (\<lambda>q. Product q = Product p) df = Some p"
  shows "apply_pesticide df autumn p (L, row) =
     (let rate = (32 / 5) * (if \<not> autumn then Effect_on_Nymphs p * of_int (row_nymph_count row)
                                else Effect_on_Adults p * of_int (row_adult_count row));
          row' = row\<lparr>application_rate := rate\<rparr>;
          L' = L\<lparr>seasonal_usage := (seasonal_usage L)(Product p := seasonal_usage L (Product p) + rate),
                 seasonal_use_count := (seasonal_use_count L)(Product p := seasonal_use_count L (Product p) + 1),
                 last_use_day := (last_use_day L)(Class p := Some (day row))\<rparr>
      in if Seasonal_Max p < seasonal_usage L (Product p) + rate
         then Inl (SeasonalMaxExceeded (Product p), L', row')
         else Inr (L', row'))"
  by (simp add: apply_pesticide_def find_effectiveness assms Let_def)

lemma scan_none:
  "find (qualifies h autumn L (day row)) ps = None \<Longrightarrow>
   \<exists>x. scan df h autumn ps (L, row) = Inl (NoSuitablePesticide (day row), L, row\<lparr>pesticide := x\<rparr>)"
proof (induction ps arbitrary: row)
  case Nil
  have "row = row\<lparr>pesticide := pesticide row\<rparr>" by simp
  then show ?case by (metis scan.simps(1) snd_conv)
next
  case (Cons p ps)
  from Cons.prems have np: "\<not> qualifies h autumn L (day row) p"
    and rest: "find (qualifies h autumn L (day row)) ps = None"
    by (auto split: if_splits)
  show ?case
  proof (cases "usage_condition autumn L (day row) p")
    case True
    with np have nh: "\<not> day row \<le> h - PHI_days p" by (simp add: qualifies_def)
    from rest have "find (qualifies h autumn L (day (row\<lparr>pesticide := Some (Product p)\<rparr>))) ps = None"
      by simp
    from Cons.IH[OF this] obtain x where
      "scan df h autumn ps (L, row\<lparr>pesticide := Some (Product p)\<rparr>) =
       Inl (NoSuitablePesticide (day row), L, row\<lparr>pesticide := x\<rparr>)" by auto
    with True nh show ?thesis by (auto simp: Let_def)
  next
    case False
    with Cons.IH[OF rest] show ?thesis by simp
  qed
qed

lemma scan_some:
  "find (qualifies h autumn L (day row)) ps = Some p \<Longrightarrow>
   scan df h autumn ps (L, row) = apply_pesticide df autumn p (L, row\<lparr>pesticide := Some (Product p)\<rparr>)"
proof (induction ps arbitrary: row)
  case Nil
  then show ?case by simp
next
  case (Cons a ps)
  show ?case
  proof (cases "qualifies h autumn L (day row) a")
    case True
    with Cons.prems have "a = p" by simp
    with True show ?thesis by (simp add: qualifies_def Let_def)
  next
    case False
    with Cons.prems have rest: "find (qualifies h autumn L (day row)) ps = Some p" by simp
    show ?thesis
    proof (cases "usage_condition autumn L (day row) a")
      case True
      with False have nh: "\<not> day row \<le> h - PHI_days a" by (simp add: qualifies_def)
      from rest have "find (qualifies h autumn L (day (row\<lparr>pesticide := Some (Product a)\<rparr>))) ps = Some p"
        by simp
      from Cons.IH[OF this] True nh show ?thesis by (simp add: Let_def)
    next
      case False
      with Cons.IH[OF rest] show ?thesis by simp
    qed
  qed
qed

text \<open>The three outcomes of one day.\<close>

lemma day_step_applies:
  assumes t: "treatment_required row"
    and f: "find (qualifies h (is_autumn row) L (day row)) df = Some p"
    and n: "find (\<lambda>q. Product q = Product p) df = Some p"
  shows "day_step df h (L, row) =
     (let rate = (32 / 5) * (if \<not> is_autumn row then Effect_on_Nymphs p * of_int (row_nymph_count row)
                                else Effect_on_Adults p * of_int (row_adult_count row));
          row' = row\<lparr>pesticide := Some (Product p), application_rate := rate\<rparr>;
          L' = L\<lparr>seasonal_usage := (seasonal_usage L)(Product p := seasonal_usage L (Product p) + rate),
                 seasonal_use_count := (seasonal_use_count L)(Product p := seasonal_use_count L (Product p) + 1),
                 last_use_day := (last_use_day L)(Class p := Some (day row))\<rparr>
      in if Seasonal_Max p < seasonal_usage L (Product p) + rate
         then Inl (SeasonalMaxExceeded (Product p), L', row')
         else Inr (L', row'))"
  using t by (simp add: day_step_def scan_some[OF f] apply_pesticide_named[OF n] Let_def)

lemma day_step_none:
  assumes t: "treatment_required row"
    and f: "find (qualifies h (is_autumn row) L (day row)) df = None"
  shows "\<exists>x. day_step df h (L, row) = Inl (NoSuitablePesticide (day row), L, row\<lparr>pesticide := x\<rparr>)"
  using t scan_none[OF f] by (simp add: day_step_def)

lemma day_step_idle:
  "\<not> treatment_required row \<Longrightarrow> day_step df h (L, row) = Inr (L, row)"
  by (simp add: day_step_def)

text \<open>The day loop keeps the days of the rows and stops at the first error.\<close>

lemma apply_pesticide_day:
  "apply_pesticide df autumn p (L, row) = Inr (L', row') \<Longrightarrow> day row' = day row"
  by (auto simp: apply_pesticide_def Let_def split: option.splits if_splits)

lemma scan_day:
  "scan df h autumn ps (L, row) = Inr (L', row') \<Longrightarrow> day row' = day row"
proof (induction ps arbitrary: row)
  case Nil
  then show ?case by simp
next
  case (Cons p ps)
  show ?case
  proof (cases "usage_condition autumn L (day row) p")
    case True
    show ?thesis
    proof (cases "day row \<le> h - PHI_days p")
      case h: True
      with True Cons.prems
      have "apply_pesticide df autumn p (L, row\<lparr>pesticide := Some (Product p)\<rparr>) = Inr (L', row')"
        by (simp add: Let_def)
      from apply_pesticide_day[OF this] show ?thesis by simp
    next
      case False
      with True Cons.prems
      have "scan df h autumn ps (L, row\<lparr>pesticide := Some (Product p)\<rparr>) = Inr (L', row')"
        by (simp add: Let_def)
      from Cons.IH[OF this] show ?thesis by simp
    qed
  next
    case False
    with Cons.prems have "scan df h autumn ps (L, row) = Inr (L', row')" by simp
    from Cons.IH[OF this] show ?thesis .
  qed
qed

lemma day_step_day:
  "day_step df h (L, row) = Inr (L', row') \<Longrightarrow> day row' = day row"
  by (auto simp: day_step_def dest: scan_day split: if_splits)

lemma run_days_days:
  "run_days df h rows L = Inr (L', rows') \<Longrightarrow> map day rows' = map day rows"
proof (induction rows arbitrary: L L' rows')
  case Nil
  then show ?case by simp
next
  case (Cons row rows)
  from Cons.prems obtain L1 row1 L2 rows2 where
    s: "day_step df h (L, row) = Inr (L1, row1)"
    and r: "run_days df h rows L1 = Inr (L2, rows2)"
    and e: "rows' = row1 # rows2"
    by (auto split: sum.splits)
  from day_step_day[OF s] Cons.IH[OF r] e show ?case by simp
qed



lemma max_PHI_Max: "df \<noteq> [] \<Longrightarrow> max_PHI df = Some (Max (PHI_days ` set df))"
  by (cases df) (simp_all add: max_PHI_def Max.set_eq_fold[symmetric])

lemma filter_upto_le_nonneg:
  "0 \<le> n \<Longrightarrow> filter (\<lambda>d. d \<le> b) [1..n] = [1..min n b]"
proof (induction n rule: int_ge_induct)
  case base
  show ?case by simp
next
  case (step n)
  have u: "[1..n + 1] = [1..n] @ [n + 1]" using step.hyps by (simp add: upto_rec2)
  show ?case
  proof (cases "n + 1 \<le> b")
    case True
    then show ?thesis using step by (simp add: u min_def)
  next
    case False
    then have "min (n + 1) b = min n b" by (auto simp: min_def)
    with False step show ?thesis by (simp add: u)
  qed
qed

lemma filter_upto_le: "filter (\<lambda>d. d \<le> b) [1..n] = [1..min n b]"
  by (cases "0 \<le> n") (simp_all add: filter_upto_le_nonneg)

text \<open>
  A sufficient condition for the day loop to complete: the first product of the table
  has pre-harvest interval 0 and high efficacy on both stages, and its limits leave
  room for one application of at most 64 on every remaining row.
\<close>

lemma run_days_head_product_succeeds:
  assumes p: "PHI_days p = 0" "3 / 4 \<le> Effect_on_Nymphs p" "Effect_on_Nymphs p \<le> 1"
      "3 / 4 \<le> Effect_on_Adults p" "Effect_on_Adults p \<le> 1"
  shows "sorted_wrt (<) (map day rows) \<Longrightarrow>
     \<forall>r\<in>set rows. day r \<le> h \<and> 0 \<le> row_nymph_count r \<and> row_nymph_count r \<le> 10 \<and>
                    0 \<le> row_adult_count r \<and> row_adult_count r \<le> 10 \<Longrightarrow>
     \<forall>l. last_use_day L (Class p) = Some l \<longrightarrow> (\<forall>r\<in>set rows. l < day r) \<Longrightarrow>
     seasonal_usage L (Product p) + 64 * of_nat (length rows) < Seasonal_Max p \<Longrightarrow>
     seasonal_use_count L (Product p) + int (length rows) \<le> Max_Applications p \<Longrightarrow>
     \<exists>res. run_days (p # rest) h rows L = Inr res"
proof (induction rows arbitrary: L)
  case Nil
  then show ?case by simp
next
  case (Cons row rows)
  let ?df = "p # rest"
  from Cons.prems(1) have sorted: "sorted_wrt (<) (map day rows)"
    and later: "\<forall>r\<in>set rows. day row < day r" by simp_all
  from Cons.prems(2) have bounds: "\<forall>r\<in>set rows. day r \<le> h \<and> 0 \<le> row_nymph_count r \<and>
      row_nymph_count r \<le> 10 \<and> 0 \<le> row_adult_count r \<and> row_adult_count r \<le> 10"
    and row: "day row \<le> h" "0 \<le> row_nymph_count row" "row_nymph_count row \<le> 10"
      "0 \<le> row_adult_count row" "row_adult_count row \<le> 10" by simp_all
  from Cons.prems(4) have usage: "seasonal_usage L (Product p) + 64 + 64 * of_nat (length rows) < Seasonal_Max p"
    by (simp add: algebra_simps)
  from Cons.prems(5) have count: "seasonal_use_count L (Product p) + 1 + int (length rows) \<le> Max_Applications p"
    by simp
  show ?case
  proof (cases "treatment_required row")
    case False
    have "\<exists>res. run_days ?df h rows L = Inr res"
    proof (rule Cons.IH[OF sorted bounds])
      show "\<forall>l. last_use_day L (Class p) = Some l \<longrightarrow> (\<forall>r\<in>set rows. l < day r)"
        using Cons.prems(3) by simp
      show "seasonal_usage L (Product p) + 64 * of_nat (length rows) < Seasonal_Max p"
        using usage by simp
      show "seasonal_use_count L (Product p) + int (length rows) \<le> Max_Applications p"
        using count by simp
    qed
    with False show ?thesis by (auto simp: day_step_idle)
  next
    case True
    define rate :: rat where
      "rate = (32 / 5) * (if \<not> is_autumn row then Effect_on_Nymphs p * of_int (row_nymph_count row)
                                else Effect_on_Adults p * of_int (row_adult_count row))"
    let ?row' = "row\<lparr>pesticide := Some (Product p), application_rate := rate\<rparr>"
    let ?L' = "L\<lparr>seasonal_usage := (seasonal_usage L)(Product p := seasonal_usage L (Product p) + rate),
                 seasonal_use_count := (seasonal_use_count L)(Product p := seasonal_use_count L (Product p) + 1),
                 last_use_day := (last_use_day L)(Class p := Some (day row))\<rparr>"
    have n1: "Effect_on_Nymphs p * of_int (row_nymph_count row) \<le> 1 * 10"
      using p(2,3) row(2,3) by (intro mult_mono) simp_all
    have n0: "0 \<le> Effect_on_Nymphs p * of_int (row_nymph_count row)"
      using p(2) row(2) by simp
    have a1: "Effect_on_Adults p * of_int (row_adult_count row) \<le> 1 * 10"
      using p(4,5) row(4,5) by (intro mult_mono) simp_all
    have a0: "0 \<le> Effect_on_Adults p * of_int (row_adult_count row)"
      using p(4) row(4) by simp
    from n0 n1 a0 a1 have rate: "0 \<le> rate" "rate \<le> 64" by (simp_all add: rate_def)
    have rot: "rotation_ok L (day row) p"
      using Cons.prems(3) p(1) by (auto simp: rotation_ok_def split: option.splits)
    have len0: "0 \<le> (64::rat) * of_nat (length rows)" by simp
    with usage have below: "seasonal_usage L (Product p) < Seasonal_Max p" by linarith
    from count have cnt: "seasonal_use_count L (Product p) < Max_Applications p" by simp
    have q: "qualifies h (is_autumn row) L (day row) p"
      using p rot below cnt row(1) by (auto simp: qualifies_def usage_condition_def)
    then have f: "find (qualifies h (is_autumn row) L (day row)) ?df = Some p" by simp
    have n: "find (\<lambda>q. Product q = Product p) ?df = Some p" by simp
    have cap: "\<not> Seasonal_Max p < seasonal_usage L (Product p) + rate"
      using usage rate(2) len0 by linarith
    from day_step_applies[OF True f n] cap
    have step: "day_step ?df h (L, row) = Inr (?L', ?row')" by (simp add: Let_def rate_def)
    have "\<exists>res. run_days ?df h rows ?L' = Inr res"
    proof (rule Cons.IH[OF sorted bounds])
      show "\<forall>l. last_use_day ?L' (Class p) = Some l \<longrightarrow> (\<forall>r\<in>set rows. l < day r)"
        using later by simp
      show "seasonal_usage ?L' (Product p) + 64 * of_nat (length rows) < Seasonal_Max p"
        using usage rate(2) by simp
      show "seasonal_use_count ?L' (Product p) + int (length rows) \<le> Max_Applications p"
        using count by simp
    qed
    with step show ?thesis by auto
  qed
qed

lemma map_succ_upt: "map (\<lambda>i. int i + 1) [0..<n] = [1..int n]"
proof (induction n)
  case 0
  show ?case by simp
next
  case (Suc n)
  have "[1..int (Suc n)] = [1..int n] @ [int n + 1]"
    by (simp add: upto_rec2 add.commute)
  with Suc show ?case by simp
qed

lemma initial_schedule_days:
  assumes "initial_schedule T P = Inr sched"
  shows "map day sched = [1..183]"
proof -
  note len = initial_schedule_length[OF assms]
  from initial_schedule_rows[OF len] assms
  have "map day sched = map (\<lambda>i. int i + 1) [0..<183]"
    by (auto simp del: upt_rec_numeral simp: comp_def)
  then show ?thesis using map_succ_upt[of 183] by simp
qed

lemma initial_schedule_first_two:
  assumes "length T = 183" "length P = 183"
  shows "\<exists>rest. initial_schedule T P =
           Inr (\<lparr>day = 1, row_temperature = T ! 0, row_precipitation = P ! 0,
                  row_nymph_count = 10, row_adult_count = 0, pesticide = None,
                  application_rate = 0\<rparr> #
                \<lparr>day = 2, row_temperature = T ! 1, row_precipitation = P ! 1,
                  row_nymph_count = 10, row_adult_count = 0, pesticide = None,
                  application_rate = 0\<rparr> # rest)"
proof -
  have "[0..<183] = 0 # 1 # [2..<183]" by (simp add: upt_conv_Cons del: upt_rec_numeral)
  then show ?thesis
    by (simp add: initial_schedule_rows[OF assms] del: upt_rec_numeral)
qed

lemma first_day_requires_treatment:
  "treatment_required \<lparr>day = 1, row_temperature = t, row_precipitation = q,
                  row_nymph_count = 10, row_adult_count = 0, pesticide = None,
                  application_rate = 0\<rparr>"
  by (simp add: treatment_required_def is_autumn_def nymph_threshold_per_squarefeet_def)

lemma strategy_needs_product:
  "pesticide_application_strategy T P h [] \<noteq> Inr rows"
proof
  assume a: "pesticide_application_strategy T P h [] = Inr rows"
  then obtain sched where s: "initial_schedule T P = Inr sched"
    by (auto simp: pesticide_application_strategy_def strategy_loop_def split: sum.splits)
  note len = initial_schedule_length[OF s]
  from initial_schedule_first_two[OF len] s obtain r2 rest where
    "sched = \<lparr>day = 1, row_temperature = T ! 0, row_precipitation = P ! 0,
                  row_nymph_count = 10, row_adult_count = 0, pesticide = None,
                  application_rate = 0\<rparr> # r2 # rest" by auto
  then have "\<exists>err. run_days [] h sched initial_ledger = Inl err"
    by (simp add: day_step_def first_day_requires_treatment)
  with a s show False
    by (auto simp: pesticide_application_strategy_def strategy_loop_def split: sum.splits)
qed

lemma strategy_schedule_days:
  assumes "pesticide_application_strategy T P h df = Inr rows"
  shows "df \<noteq> []" and "length T = 183"
    and "map day rows = [1..min 183 (h - Max (PHI_days ` set df))]"
proof -
  from assms show ne: "df \<noteq> []" using strategy_needs_product by blast
  from assms obtain sched L full where s: "initial_schedule T P = Inr sched"
    and r: "run_days df h sched initial_ledger = Inr (L, full)"
    and f: "rows = filter (within_harvest_bound h df) full"
    by (auto simp: pesticide_application_strategy_def strategy_loop_def split: sum.splits)
  from initial_schedule_length[OF s] show "length T = 183" by simp
  from run_days_days[OF r] initial_schedule_days[OF s] have d: "map day full = [1..183]" by simp
  let ?b = "h - Max (PHI_days ` set df)"
  have w: "within_harvest_bound h df = (\<lambda>d. d \<le> ?b) \<circ> day"
    by (auto simp: within_harvest_bound_def max_PHI_Max[OF ne])
  have "map day rows = filter (\<lambda>d. d \<le> ?b) (map day full)"
    unfolding f w by (simp add: filter_map)
  then show "map day rows = [1..min 183 ?b]" by (simp add: d filter_upto_le)
qed

lemma strategy_succeeds:
  assumes len: "length T = 183" "length P = 183"
    and p: "PHI_days p = 0" "3 / 4 \<le> Effect_on_Nymphs p" "Effect_on_Nymphs p \<le> 1"
      "3 / 4 \<le> Effect_on_Adults p" "Effect_on_Adults p \<le> 1"
    and h: "183 \<le> h"
    and cap: "11712 < Seasonal_Max p" "183 \<le> Max_Applications p"
  shows "\<exists>rows. pesticide_application_strategy T P h (p # rest) = Inr rows"
proof -
  let ?row = "\<lambda>i. \<lparr>day = int i + 1,
                            row_temperature = T ! i,
                            row_precipitation = P ! i,
                            row_nymph_count = (if i < 119 then 10 else 0),
                            row_adult_count = (if i < 119 then 0 else 10),
                            pesticide = None,
                            application_rate = 0\<rparr>"
  let ?sched = "map ?row [0..<183]"
  have s: "initial_schedule T P = Inr ?sched" by (rule initial_schedule_rows[OF len])
  have "\<exists>res. run_days (p # rest) h ?sched initial_ledger = Inr res"
  proof (rule run_days_head_product_succeeds[OF p])
    have "map day ?sched = [1..183]" by (rule initial_schedule_days[OF s])
    then show "sorted_wrt (<) (map day ?sched)" by (simp only: sorted_wrt_upto)
    show "\<forall>r\<in>set ?sched. day r \<le> h \<and> 0 \<le> row_nymph_count r \<and> row_nymph_count r \<le> 10 \<and>
                    0 \<le> row_adult_count r \<and> row_adult_count r \<le> 10"
      using h by (auto simp del: upt_rec_numeral)
    show "\<forall>l. last_use_day initial_ledger (Class p) = Some l \<longrightarrow> (\<forall>r\<in>set ?sched. l < day r)"
      by (simp add: initial_ledger_def)
    show "seasonal_usage initial_ledger (Product p) + 64 * of_nat (length ?sched) < Seasonal_Max p"
      using cap(1) by (simp add: initial_ledger_def del: upt_rec_numeral)
    show "seasonal_use_count initial_ledger (Product p) + int (length ?sched) \<le> Max_Applications p"
      using cap(2) by (simp add: initial_ledger_def del: upt_rec_numeral)
  qed
  then show ?thesis
    by (auto simp add: pesticide_application_strategy_def strategy_loop_def s simp del: upt_rec_numeral)
qed


lemma summer_qualifies:
  "\<not> is_autumn row \<Longrightarrow>
   qualifies h (is_autumn row) L (day row) =
     (\<lambda>p. 3 / 4 \<le> Effect_on_Nymphs p \<and> rotation_ok L (day row) p \<and>
          seasonal_usage L (Product p) < Seasonal_Max p \<and>
          seasonal_use_count L (Product p) < Max_Applications p \<and>
          day row \<le> h - PHI_days p)"
  by (auto simp: qualifies_def usage_condition_def fun_eq_iff)

lemma summer_treatment:
  "day row \<le> 92 \<Longrightarrow> 9 / 10 \<le> (of_int (row_nymph_count row) :: rat) \<Longrightarrow>
   treatment_required row \<and> \<not> is_autumn row"
  by (simp add: treatment_required_def is_autumn_def nymph_threshold_per_squarefeet_def)

lemma autumn_treatment:
  "92 < day row \<Longrightarrow> 3 / 10 \<le> (of_int (row_adult_count row) :: rat) \<Longrightarrow>
   treatment_required row \<and> is_autumn row"
  by (simp add: treatment_required_def is_autumn_def adult_threshold_per_squarefeet_def)

text \<open>Unfolding rules for running a day on concrete rows and tables.\<close>

lemmas day_eval =
  day_step_def treatment_required_def is_autumn_def nymph_threshold_per_squarefeet_def
  adult_threshold_per_squarefeet_def usage_condition_def rotation_ok_def apply_pesticide_def
  insecticide_effectiveness_def initial_ledger_def example_product_def idle_product_def
  summer_row_def late_row_def Let_def

lemma strategy_loop_constant_weather:
  "\<exists>rest. strategy_loop (replicate 183 25) (replicate 183 5) h df =
     (case run_days df h (summer_row 1 # summer_row 2 # rest) initial_ledger of
        Inl err \<Rightarrow> Inl (fst err, Some (snd err))
      | Inr res \<Rightarrow> Inr res)"
proof -
  have "length (replicate 183 (25::rat)) = 183" "length (replicate 183 (5::rat)) = 183" by simp_all
  from initial_schedule_first_two[OF this] obtain rest where
    "initial_schedule (replicate 183 25) (replicate 183 5) =
       Inr (summer_row 1 # summer_row 2 # rest)"
    by (auto simp: summer_row_def)
  then show ?thesis by (auto simp: strategy_loop_def)
qed








section \<open>Properties of the outcome evaluator\<close>

lemma profit_loop_without_applications:
  "\<forall>r\<in>set rows. \<not> 0 < application_rate r \<Longrightarrow>
   profit_loop pc area mg hp col rows (c, m, pen) =
     Inr (c + pc * area * of_nat (length (filter (\<lambda>r. truthy (pesticide r)) rows)),
          m + mg * (\<Sum>r\<leftarrow>rows. of_int (row_nymph_count r) + of_int (row_adult_count r)),
          pen)"
proof (induction rows arbitrary: c m)
  case Nil
  show ?case by simp
next
  case (Cons row rows)
  then show ?case by (simp add: Let_def algebra_simps)
qed

lemma calculate_profit_without_applications:
  assumes "\<forall>r\<in>set (frame_rows df). \<not> 0 < application_rate r"
  shows "calculate_profit vineyard_length depth df pesticide_cost base_yield price_per_grape
           mold_growth_rate harvest_penalty_rate =
         Inr (max 0 (base_yield -
                 mold_growth_rate *
                   (\<Sum>r\<leftarrow>frame_rows df. of_int (row_nymph_count r) + of_int (row_adult_count r))) *
              price_per_grape -
              pesticide_cost * (vineyard_length * 4 * depth) *
                of_nat (length (filter (\<lambda>r. truthy (pesticide r)) (frame_rows df))))"
  by (simp add: calculate_profit_def profit_loop_without_applications[OF assms] Let_def)

lemma profit_loop_with_application:
  "\<exists>r\<in>set rows. 0 < application_rate r \<Longrightarrow>
   profit_loop pc area mg hp col rows totals =
     Inl (case col of None \<Rightarrow> KeyError | Some c \<Rightarrow> AmbiguousTruthValue)"
proof (induction rows arbitrary: totals)
  case Nil
  then show ?case by simp
next
  case (Cons row rows)
  show ?case
  proof (cases "0 < application_rate row")
    case True
    then show ?thesis by (simp add: Let_def split: option.splits)
  next
    case False
    with Cons.prems have "\<exists>r\<in>set rows. 0 < application_rate r" by simp
    from Cons.IH[OF this] False show ?thesis by (simp add: Let_def)
  qed
qed

section \<open>Claims about the population model\<close>

text \<open>
  Claim C5, as amended. On a run from day 1 whose weather lists cover the day range and
  whose egg count fits a 64-bit integer, the model returns, and for every day \<open>d\<close> in
  2..59 the immature count is the previous day's count plus the product
  previous count \<times> 0.01 \<times> tempFactor \<times> precipFactor, computed in double precision from
  left to right and \<^emph>\<open>truncated towards zero\<close> (\<^verbatim>\<open>int(...)\<close>), the sum reduced to 64 bits,
  with tempFactor(t) = clamp((t - 10) / 15, 0, 1) and
  precipFactor(p) = 1 - clamp(|p - 5| / 10, 0, 1); the mature count is 0 on these days.
  With between 0 and \<open>2 ^ 60\<close> eggs the sum fits 64 bits and is stored as it is.
\<close>

theorem early_phase_growth_truncates:
  assumes "nat N \<le> length T" and "nat N \<le> length P" and "in_int64 eggs"
  shows "\<exists>pop. slf_population_model T P eggs 1 N = Inr pop \<and>
           (\<forall>d. 2 \<le> d \<and> d \<le> 59 \<and> int d \<le> N \<longrightarrow>
              (let increment =
                     py_int (double_mul
                       (double_mul
                          (double_mul (double_of_int (nymphs_on pop (d - 1))) (double (1 / 100)))
                          (max 0 (min 1 (double_div (double_sub (on_day T d) 10) 15))))
                       (double_sub 1 (max 0 (min 1 (double_div \<bar>double_sub (on_day P d) 5\<bar> 10)))))
               in nymphs_on pop d = int64_wrap (nymphs_on pop (d - 1) + increment) \<and>
                  adults_on pop d = 0 \<and>
                  (0 \<le> eggs \<and> eggs \<le> 2 ^ 60 \<longrightarrow>
                     nymphs_on pop d = nymphs_on pop (d - 1) + increment)))"
proof -
  from model_returns[OF assms(3,1,2)] obtain pop where
    m: "slf_population_model T P eggs 1 N = Inr pop" by blast
  have "let increment =
              py_int (double_mul
                (double_mul
                   (double_mul (double_of_int (nymphs_on pop (d - 1))) (double (1 / 100)))
                   (max 0 (min 1 (double_div (double_sub (on_day T d) 10) 15))))
                (double_sub 1 (max 0 (min 1 (double_div \<bar>double_sub (on_day P d) 5\<bar> 10)))))
        in nymphs_on pop d = int64_wrap (nymphs_on pop (d - 1) + increment) \<and>
           adults_on pop d = 0 \<and>
           (0 \<le> eggs \<and> eggs \<le> 2 ^ 60 \<longrightarrow>
              nymphs_on pop d = nymphs_on pop (d - 1) + increment)"
    if d: "2 \<le> d \<and> d \<le> 59 \<and> int d \<le> N" for d
  proof -
    have "0 \<le> double_div \<bar>double_sub (on_day P d) 5\<bar> 10"
      unfolding double_div_def by (rule double_nonneg) simp
    then have pf: "double_sub 1 (max 0 (min 1 (double_div \<bar>double_sub (on_day P d) 5\<bar> 10))) =
                   precip_factor (on_day P d)"
      by (simp add: precip_factor_def optimal_precipitation_def max_def min_def)
    have tf: "max 0 (min 1 (double_div (double_sub (on_day T d) 10) 15)) = temp_factor (on_day T d)"
      by (simp add: temp_factor_def)
    have inc: "py_int (double_mul
                (double_mul
                   (double_mul (double_of_int (nymphs_on pop (d - 1))) (double (1 / 100)))
                   (temp_factor (on_day T d)))
                (precip_factor (on_day P d))) =
               cohort (nymphs_on pop (d - 1)) (on_day T d) (on_day P d)"
      by (simp add: cohort_def cohort_product_def growth_rate_def)
    from d have d': "2 \<le> d" "d \<le> 59" "int d \<le> N" by simp_all
    from d' have d1: "1 \<le> d" by simp
    have "nymphs_on pop d =
            nymphs_on pop (d - 1) + cohort (nymphs_on pop (d - 1)) (on_day T d) (on_day P d)"
      if "0 \<le> eggs \<and> eggs \<le> 2 ^ 60"
      using early_bound[OF m _ _ d1 d'(2,3)] that d'(1) by simp
    with early_day[OF m d'] show ?thesis
      unfolding pf tf inc Let_def by simp
  qed
  with m show ?thesis by blast
qed

text \<open>
  At 250 immature, temperature 20 and precipitation 1 the exact product is 1, the
  double-precision product is just below 1, and the code adds nothing.
\<close>

theorem early_phase_growth_truncates_witness:
  "nat 2 \<le> length [20, 20 :: rat] \<and> nat 2 \<le> length [1, 1 :: rat] \<and> in_int64 250 \<and>
   (\<exists>pop. slf_population_model [20, 20] [1, 1] 250 1 2 = Inr pop \<and>
      nymphs_on pop 2 = 250 \<and> adults_on pop 2 = 0)"
proof -
  have h: "nat 2 \<le> length [20, 20 :: rat]" "nat 2 \<le> length [1, 1 :: rat]" "in_int64 250"
    by (simp_all add: in_int64_def)
  from early_phase_growth_truncates[OF h] obtain pop where
    m: "slf_population_model [20, 20] [1, 1] 250 1 2 = Inr pop"
    and a: "\<forall>d. 2 \<le> d \<and> d \<le> 59 \<and> int d \<le> 2 \<longrightarrow>
              (let increment =
                     py_int (double_mul
                       (double_mul
                          (double_mul (double_of_int (nymphs_on pop (d - 1))) (double (1 / 100)))
                          (max 0 (min 1 (double_div (double_sub (on_day [20, 20] d) 10) 15))))
                       (double_sub 1 (max 0 (min 1 (double_div \<bar>double_sub (on_day [1, 1] d) 5\<bar> 10)))))
               in nymphs_on pop d = int64_wrap (nymphs_on pop (d - 1) + increment) \<and>
                  adults_on pop d = 0 \<and>
                  (0 \<le> (250 :: int) \<and> (250 :: int) \<le> 2 ^ 60 \<longrightarrow>
                     nymphs_on pop d = nymphs_on pop (d - 1) + increment))"
    by blast
  have one: "nymphs_on pop (2 - 1) = 250" using first_day(1)[OF m] by simp
  have t: "on_day [20, 20] 2 = 20" and p: "on_day [1, 1] 2 = 1" by (simp_all add: on_day_def)
  have inc: "py_int (double_mul
               (double_mul (double_mul (double_of_int 250) (double (1 / 100)))
                  (max 0 (min 1 (double_div (double_sub 20 10) 15))))
               (double_sub 1 (max 0 (min 1 (double_div \<bar>double_sub 1 5\<bar> 10))))) = 0"
    by code_simp
  from a[rule_format, of 2] have "nymphs_on pop 2 = 250 \<and> adults_on pop 2 = 0"
    unfolding Let_def one t p inc by simp
  with m h show ?thesis by blast
qed

text \<open>
  Claim C5 as stated, with the increment rounded to nearest, fails: from 199 immature at
  temperature 25 and precipitation 5 the product is 1.99, the code adds 1 and day 2 has
  200, where rounding to nearest would give 201.
\<close>

theorem early_growth_not_rounded_to_nearest:
  "slf_population_model [25, 25] [5, 5] 199 1 2 =
     Inr \<lparr>days = [1, 2], nymph_count = [199, 200], adult_count = [0, 0]\<rparr> \<and>
   199 + round (cohort_product 199 25 5) = (201 :: int)"
proof -
  have "optimal_loop 199 [1..2] (0, 0) = Some [(199, 0), (200, 0)]" by code_simp
  from model_optimal[OF this]
  have run: "slf_population_model [25, 25] [5, 5] 199 1 2 =
               Inr \<lparr>days = [1, 2], nymph_count = [199, 200], adult_count = [0, 0]\<rparr>"
    by (simp add: numeral_2_eq_2 upto_rec1)
  have lo: "double (3 / 2) = 3 / 2" using double_representable[of 3 "- 1"] by simp
  have hi: "double 2 = 2" using double_of_int[of 2] by simp
  have "3 / 2 \<le> cohort_product 199 25 5" and "cohort_product 199 25 5 \<le> 2"
    using cohort_product_optimal_between[of 199 "3 / 2" 2, OF _ lo hi]
    by (simp_all add: growth_rate_value)
  then have "round (cohort_product 199 25 5) = 2"
    unfolding round_def by (intro floor_unique) simp_all
  with run show ?thesis by simp
qed

text \<open>
  Claim C6, as amended. In scenario A (temperature 25, precipitation 5, 183 days, 1000
  eggs) the immature count rises strictly every day of days 2..59, is 0 on day 120 and
  on every later day, and the mature count on day 183 equals the immature count of
  day 59, which is 1743.
\<close>

theorem scenario_A_final_adults_are_day_59_nymphs:
  "case scenario_A of
     Inl e \<Rightarrow> False
   | Inr pop \<Rightarrow>
       sorted_wrt (<) (take 59 (nymph_count pop)) \<and>
       set (drop 119 (nymph_count pop)) = {0} \<and>
       nymphs_on pop 120 = 0 \<and>
       adults_on pop 183 = nymphs_on pop 59 \<and>
       nymphs_on pop 59 = 1743"
proof -
  from scenario_A_run obtain rs where
    rs: "optimal_loop 1000 [1..183] (0, 0) = Some rs"
    and run: "scenario_A =
                Inr \<lparr>days = [1..183], nymph_count = map fst rs, adult_count = map snd rs\<rparr>"
    by blast
  have "case optimal_loop 1000 [1..183] (0, 0) of
          None \<Rightarrow> False
        | Some rs \<Rightarrow>
            (case Inr \<lparr>days = [1..183], nymph_count = map fst rs, adult_count = map snd rs\<rparr> of
               Inl (e :: error) \<Rightarrow> False
             | Inr pop \<Rightarrow>
                 sorted_wrt (<) (take 59 (nymph_count pop)) \<and>
                 set (drop 119 (nymph_count pop)) = {0} \<and>
                 nymphs_on pop 120 = 0 \<and>
                 adults_on pop 183 = nymphs_on pop 59 \<and>
                 nymphs_on pop 59 = 1743)"
    by code_simp
  then show ?thesis unfolding rs run by (simp only: option.case)
qed

text \<open>
  Claim C6 as stated fails in its last part: the day-1 immature count is 1000 and the
  mature count on day 183 is 1743.
\<close>

theorem scenario_A_final_adults_not_initial_eggs:
  "counts_on scenario_A 1 = Inr (1000, 0) \<and> counts_on scenario_A 183 = Inr (0, 1743)"
proof -
  from scenario_A_run obtain rs where
    rs: "optimal_loop 1000 [1..183] (0, 0) = Some rs"
    and run: "scenario_A =
                Inr \<lparr>days = [1..183], nymph_count = map fst rs, adult_count = map snd rs\<rparr>"
    by blast
  have "case optimal_loop 1000 [1..183] (0, 0) of
          None \<Rightarrow> False
        | Some rs \<Rightarrow>
            counts_on
              (Inr \<lparr>days = [1..183], nymph_count = map fst rs, adult_count = map snd rs\<rparr>) 1 =
              Inr (1000, 0) \<and>
            counts_on
              (Inr \<lparr>days = [1..183], nymph_count = map fst rs, adult_count = map snd rs\<rparr>) 183 =
              Inr (0, 1743)"
    by code_simp
  then show ?thesis unfolding rs run by (simp only: option.case)
qed

text \<open>
  Claim C7 as stated fails: the counts are 64-bit integers, and a sum that does not fit
  wraps around. With \<open>2 ^ 63 - 1\<close> eggs at temperature 25 and precipitation 5, lists of
  the length of the day range 1..2, the immature count of day 2 is negative.
\<close>

theorem huge_egg_count_wraps_negative:
  "slf_population_model [25, 25] [5, 5] 9223372036854775807 1 2 =
     Inr \<lparr>days = [1, 2],
          nymph_count = [9223372036854775807, - 9131138316486228049],
          adult_count = [0, 0]\<rparr>"
  by code_simp

text \<open>
  Claim C7, as amended. For weather lists of the length of the day range 1..N and a
  number of initial eggs between 0 and \<open>2 ^ 60\<close>, the model returns, both counts are
  non-negative on every day, and on every day \<open>d \<ge> 120\<close> the immature count is 0 and the
  mature count is not below that of the day before.
\<close>

theorem counts_nonneg_and_late_phase:
  assumes "length T = nat N" and "length P = nat N" and "0 \<le> eggs" and "eggs \<le> 2 ^ 60"
  shows "\<exists>pop. slf_population_model T P eggs 1 N = Inr pop \<and>
           (\<forall>d. 1 \<le> d \<and> int d \<le> N \<longrightarrow>
              0 \<le> nymphs_on pop d \<and> 0 \<le> adults_on pop d \<and>
              (120 \<le> d \<longrightarrow>
                 nymphs_on pop d = 0 \<and> adults_on pop (d - 1) \<le> adults_on pop d))"
proof -
  from assms(1,2) have len: "nat N \<le> length T" "nat N \<le> length P" by simp_all
  from assms(3,4) have "in_int64 eggs" by (simp add: in_int64_def)
  from model_returns[OF this len] obtain pop where
    m: "slf_population_model T P eggs 1 N = Inr pop" by blast
  have "0 \<le> nymphs_on pop d \<and> 0 \<le> adults_on pop d \<and>
        (120 \<le> d \<longrightarrow> nymphs_on pop d = 0 \<and> adults_on pop (d - 1) \<le> adults_on pop d)"
    if d: "1 \<le> d \<and> int d \<le> N" for d
  proof -
    from d have d': "1 \<le> d" "int d \<le> N" by simp_all
    note nn = counts_nonneg[OF m assms(3,4) d']
    have "nymphs_on pop d = 0 \<and> adults_on pop (d - 1) \<le> adults_on pop d" if l: "120 \<le> d"
    proof -
      from l d' have p: "1 \<le> d - 1" "int (d - 1) \<le> N" and s: "60 \<le> d" by simp_all
      from counts_nonneg(1)[OF m assms(3,4) p] total_preserved[OF m s d'(2)]
        late_day(1)[OF m l d'(2)]
      show ?thesis by simp
    qed
    with nn show ?thesis by blast
  qed
  with m show ?thesis by blast
qed

theorem counts_nonneg_and_late_phase_witness:
  "length (replicate 183 (25 :: rat)) = nat 183 \<and> length (replicate 183 (5 :: rat)) = nat 183 \<and>
   (0 :: int) \<le> 1000 \<and> (1000 :: int) \<le> 2 ^ 60 \<and>
   (\<exists>pop. slf_population_model (replicate 183 25) (replicate 183 5) 1000 1 183 = Inr pop \<and>
      0 \<le> nymphs_on pop 150 \<and> 0 \<le> adults_on pop 150 \<and>
      nymphs_on pop 150 = 0 \<and> adults_on pop 149 \<le> adults_on pop 150)"
proof -
  have h: "length (replicate 183 (25 :: rat)) = nat 183" "length (replicate 183 (5 :: rat)) = nat 183"
    "(0 :: int) \<le> 1000" "(1000 :: int) \<le> 2 ^ 60" by simp_all
  from counts_nonneg_and_late_phase[OF h] obtain pop where
    m: "slf_population_model (replicate 183 25) (replicate 183 5) 1000 1 183 = Inr pop"
    and a: "\<forall>d. 1 \<le> d \<and> int d \<le> 183 \<longrightarrow>
              0 \<le> nymphs_on pop d \<and> 0 \<le> adults_on pop d \<and>
              (120 \<le> d \<longrightarrow>
                 nymphs_on pop d = 0 \<and> adults_on pop (d - 1) \<le> adults_on pop d)"
    by blast
  from a[rule_format, of 150] m h show ?thesis by simp
qed

text \<open>
  Claim C10. Whenever the model returns, on every day \<open>d \<ge> 60\<close> the total of the two
  counts equals the total of the day before, and on a run of at least 120 days the
  mature count of the last day is the total of day 59, on which the mature count is
  still 0. The model returns for every egg count that fits a 64-bit integer; storing
  any other egg count on day 1 is an overflow error.
\<close>

theorem population_conserved_from_day_60:
  assumes "length T = nat N" and "length P = nat N"
  shows "(in_int64 eggs \<longrightarrow> (\<exists>pop. slf_population_model T P eggs 1 N = Inr pop)) \<and>
         (\<not> in_int64 eggs \<and> 1 \<le> N \<longrightarrow> slf_population_model T P eggs 1 N = Inl OverflowError) \<and>
         (\<forall>pop. slf_population_model T P eggs 1 N = Inr pop \<longrightarrow>
            (\<forall>d. 60 \<le> d \<and> int d \<le> N \<longrightarrow>
               nymphs_on pop d + adults_on pop d =
               nymphs_on pop (d - 1) + adults_on pop (d - 1)) \<and>
            (120 \<le> N \<longrightarrow>
               adults_on pop (nat N) = nymphs_on pop 59 + adults_on pop 59 \<and>
               adults_on pop 59 = 0))"
proof -
  from assms have len: "nat N \<le> length T" "nat N \<le> length P" by simp_all
  have ret: "in_int64 eggs \<longrightarrow> (\<exists>pop. slf_population_model T P eggs 1 N = Inr pop)"
    using model_returns[OF _ len] by blast
  have ovf: "\<not> in_int64 eggs \<and> 1 \<le> N \<longrightarrow> slf_population_model T P eggs 1 N = Inl OverflowError"
    using model_overflow[OF _ _ len] by blast
  have cons: "(\<forall>d. 60 \<le> d \<and> int d \<le> N \<longrightarrow>
               nymphs_on pop d + adults_on pop d =
               nymphs_on pop (d - 1) + adults_on pop (d - 1)) \<and>
            (120 \<le> N \<longrightarrow>
               adults_on pop (nat N) = nymphs_on pop 59 + adults_on pop 59 \<and>
               adults_on pop 59 = 0)"
    if m: "slf_population_model T P eggs 1 N = Inr pop" for pop
  proof -
    have step: "nymphs_on pop d + adults_on pop d = nymphs_on pop (d - 1) + adults_on pop (d - 1)"
      if "60 \<le> d \<and> int d \<le> N" for d
      using total_preserved[OF m] that by blast
    have final: "adults_on pop (nat N) = nymphs_on pop 59 + adults_on pop 59 \<and> adults_on pop 59 = 0"
      if n: "120 \<le> N"
    proof -
      from n have b: "59 \<le> nat N" "int (nat N) \<le> N" "120 \<le> nat N" by simp_all
      from n have z: "adults_on pop 59 = 0"
        by (intro early_day(2)[OF m]) simp_all
      from total_from_day_59[OF m b(1,2)] late_day(1)[OF m b(3,2)]
      have "adults_on pop (nat N) = nymphs_on pop 59" by simp
      with z show ?thesis by simp
    qed
    from step final show ?thesis by blast
  qed
  from ret ovf cons show ?thesis by blast
qed

theorem population_conserved_from_day_60_witness:
  "length (replicate 183 (25 :: rat)) = nat 183 \<and> length (replicate 183 (5 :: rat)) = nat 183 \<and>
   in_int64 1000 \<and>
   (\<exists>pop. slf_population_model (replicate 183 25) (replicate 183 5) 1000 1 183 = Inr pop \<and>
      nymphs_on pop 60 + adults_on pop 60 = nymphs_on pop 59 + adults_on pop 59 \<and>
      adults_on pop 183 = nymphs_on pop 59 + adults_on pop 59 \<and> adults_on pop 59 = 0)"
proof -
  have h: "length (replicate 183 (25 :: rat)) = nat 183" "length (replicate 183 (5 :: rat)) = nat 183"
    by simp_all
  have i: "in_int64 1000" by (simp add: in_int64_def)
  note c = population_conserved_from_day_60[OF h, of 1000]
  from c i obtain pop where
    m: "slf_population_model (replicate 183 25) (replicate 183 5) 1000 1 183 = Inr pop"
    by blast
  from c m have a: "\<forall>d. 60 \<le> d \<and> int d \<le> 183 \<longrightarrow>
              nymphs_on pop d + adults_on pop d =
              nymphs_on pop (d - 1) + adults_on pop (d - 1)"
    and b: "(120 :: int) \<le> 183 \<longrightarrow>
              adults_on pop (nat 183) = nymphs_on pop 59 + adults_on pop 59 \<and>
              adults_on pop 59 = 0"
    by blast+
  from a[rule_format, of 60] b m h i show ?thesis by simp
qed

section \<open>Claims about the scheduler\<close>

text \<open>
  Claim C1, as amended. Product names are distinct. On a summer day (day \<open>\<le> 92\<close>)
  whose immature count reaches the threshold 0.9, the day's step applies the first
  product in table order that satisfies all of: (1) efficacy on the immature stage at
  least 0.75; (2) the days since the last application of the product's class exceed its
  pre-harvest interval (or the class is unused); (3) the product's cumulative volume
  \<^emph>\<open>before\<close> this application is strictly below its seasonal maximum; (4) its
  application count is below the maximum number of applications; (5) the day is at most
  harvest day minus pre-harvest interval. That product is written to the row, its count
  goes up by one and its class is stamped with the day; if no product satisfies the
  five, the step raises for that day and the dictionaries are untouched. On an autumn
  day that needs treatment and completes, the recorded product satisfies (1) for the
  mature stage and (5).
\<close>

theorem summer_day_applies_first_qualifying_product:
  assumes "distinct (map Product df)"
  shows
   "(day row \<le> 92 \<and> 9 / 10 \<le> (of_int (row_nymph_count row) :: rat) \<longrightarrow>
      (case find (\<lambda>p. 3 / 4 \<le> Effect_on_Nymphs p \<and>
                       rotation_ok L (day row) p \<and>
                       seasonal_usage L (Product p) < Seasonal_Max p \<and>
                       seasonal_use_count L (Product p) < Max_Applications p \<and>
                       day row \<le> h - PHI_days p) df of
         None \<Rightarrow> \<exists>row'. day_step df h (L, row) = Inl (NoSuitablePesticide (day row), L, row')
       | Some p \<Rightarrow>
           \<exists>L' row'.
             (day_step df h (L, row) = Inr (L', row') \<or>
              day_step df h (L, row) = Inl (SeasonalMaxExceeded (Product p), L', row')) \<and>
             pesticide row' = Some (Product p) \<and>
             seasonal_use_count L' (Product p) = seasonal_use_count L (Product p) + 1 \<and>
             last_use_day L' (Class p) = Some (day row))) \<and>
    (92 < day row \<and> 3 / 10 \<le> (of_int (row_adult_count row) :: rat) \<and>
     day_step df h (L, row) = Inr (L2, row2) \<longrightarrow>
       (\<exists>p \<in> set df. pesticide row2 = Some (Product p) \<and> 3 / 4 \<le> Effect_on_Adults p \<and>
                      day row \<le> h - PHI_days p))"
proof (intro conjI impI)
  assume "day row \<le> 92 \<and> 9 / 10 \<le> (of_int (row_nymph_count row) :: rat)"
  then have t: "treatment_required row" and s: "\<not> is_autumn row"
    using summer_treatment by blast+
  let ?Q = "\<lambda>p. 3 / 4 \<le> Effect_on_Nymphs p \<and> rotation_ok L (day row) p \<and>
          seasonal_usage L (Product p) < Seasonal_Max p \<and>
          seasonal_use_count L (Product p) < Max_Applications p \<and>
          day row \<le> h - PHI_days p"
  have q: "qualifies h (is_autumn row) L (day row) = ?Q" by (rule summer_qualifies[OF s])
  show "case find ?Q df of
         None \<Rightarrow> \<exists>row'. day_step df h (L, row) = Inl (NoSuitablePesticide (day row), L, row')
       | Some p \<Rightarrow>
           \<exists>L' row'.
             (day_step df h (L, row) = Inr (L', row') \<or>
              day_step df h (L, row) = Inl (SeasonalMaxExceeded (Product p), L', row')) \<and>
             pesticide row' = Some (Product p) \<and>
             seasonal_use_count L' (Product p) = seasonal_use_count L (Product p) + 1 \<and>
             last_use_day L' (Class p) = Some (day row)"
  proof (cases "find ?Q df")
    case None
    with q have "find (qualifies h (is_autumn row) L (day row)) df = None" by simp
    from day_step_none[OF t this] None show ?thesis by auto
  next
    case (Some p)
    with q have f: "find (qualifies h (is_autumn row) L (day row)) df = Some p" by simp
    from find_Some_in_set[OF f] have "p \<in> set df" by simp
    from find_by_name[OF assms this] have n: "find (\<lambda>q. Product q = Product p) df = Some p" .
    from day_step_applies[OF t f n] Some show ?thesis
      by (auto simp: Let_def split: if_splits)
  qed
next
  assume a: "92 < day row \<and> 3 / 10 \<le> (of_int (row_adult_count row) :: rat) \<and>
     day_step df h (L, row) = Inr (L2, row2)"
  then have t: "treatment_required row" and s: "is_autumn row"
    using autumn_treatment by blast+
  from a have r: "day_step df h (L, row) = Inr (L2, row2)" by simp
  show "\<exists>p \<in> set df. pesticide row2 = Some (Product p) \<and> 3 / 4 \<le> Effect_on_Adults p \<and>
                      day row \<le> h - PHI_days p"
  proof (cases "find (qualifies h (is_autumn row) L (day row)) df")
    case None
    from day_step_none[OF t None] r show ?thesis by auto
  next
    case (Some p)
    from find_Some_in_set[OF Some] have p: "p \<in> set df"
      and q: "qualifies h (is_autumn row) L (day row) p" by simp_all
    from find_by_name[OF assms p] have n: "find (\<lambda>q. Product q = Product p) df = Some p" .
    from day_step_applies[OF t Some n] r have "pesticide row2 = Some (Product p)"
      by (auto simp: Let_def split: if_splits)
    moreover from q s have "3 / 4 \<le> Effect_on_Adults p" "day row \<le> h - PHI_days p"
      by (auto simp: qualifies_def usage_condition_def)
    ultimately show ?thesis using p by blast
  qed
qed

text \<open>
  The theorem at day 1 (summer) and day 120 (autumn) of the constant-weather schedule
  with one excellent product.
\<close>

theorem summer_day_applies_first_qualifying_product_witness:
  "distinct (map Product [example_product ''A'' ''C'' 1000 10]) \<and>
   day (summer_row 1) \<le> 92 \<and> 9 / 10 \<le> (of_int (row_nymph_count (summer_row 1)) :: rat) \<and>
   (\<exists>L' row'.
      (day_step [example_product ''A'' ''C'' 1000 10] 183 (initial_ledger, summer_row 1) = Inr (L', row') \<or>
       day_step [example_product ''A'' ''C'' 1000 10] 183 (initial_ledger, summer_row 1) =
         Inl (SeasonalMaxExceeded ''A'', L', row')) \<and>
      pesticide row' = Some ''A'' \<and>
      seasonal_use_count L' ''A'' = 1 \<and> last_use_day L' ''C'' = Some 1) \<and>
   92 < day (late_row 120) \<and> 3 / 10 \<le> (of_int (row_adult_count (late_row 120)) :: rat) \<and>
   (\<exists>L2 row2.
      day_step [example_product ''A'' ''C'' 1000 10] 183 (initial_ledger, late_row 120) = Inr (L2, row2) \<and>
      (\<exists>p \<in> set [example_product ''A'' ''C'' 1000 10].
          pesticide row2 = Some (Product p) \<and> 3 / 4 \<le> Effect_on_Adults p \<and>
          day (late_row 120) \<le> 183 - PHI_days p))"
proof -
  let ?df = "[example_product ''A'' ''C'' 1000 10]"
  have d: "distinct (map Product ?df)" by simp
  have s: "day (summer_row 1) \<le> 92 \<and> 9 / 10 \<le> (of_int (row_nymph_count (summer_row 1)) :: rat)"
    by (simp add: summer_row_def)
  have a: "92 < day (late_row 120) \<and> 3 / 10 \<le> (of_int (row_adult_count (late_row 120)) :: rat)"
    by (simp add: late_row_def)
  obtain L2 row2 where r: "day_step ?df 183 (initial_ledger, late_row 120) = Inr (L2, row2)"
    by (simp add: day_eval)
  note thm1 = summer_day_applies_first_qualifying_product[OF d,
      where row = "summer_row 1" and L = initial_ledger and h = 183,
      THEN conjunct1, rule_format, OF s]
  note thm2 = summer_day_applies_first_qualifying_product[OF d,
      where row = "late_row 120" and L = initial_ledger and h = 183 and ?L2.0 = L2 and ?row2.0 = row2,
      THEN conjunct2, rule_format]
  have f: "find (\<lambda>p. 3 / 4 \<le> Effect_on_Nymphs p \<and>
                       rotation_ok initial_ledger (day (summer_row 1)) p \<and>
                       seasonal_usage initial_ledger (Product p) < Seasonal_Max p \<and>
                       seasonal_use_count initial_ledger (Product p) < Max_Applications p \<and>
                       day (summer_row 1) \<le> 183 - PHI_days p) ?df
           = Some (example_product ''A'' ''C'' 1000 10)"
    by (simp add: day_eval)
  from thm1 have one: "\<exists>L' row'.
      (day_step ?df 183 (initial_ledger, summer_row 1) = Inr (L', row') \<or>
       day_step ?df 183 (initial_ledger, summer_row 1) = Inl (SeasonalMaxExceeded ''A'', L', row')) \<and>
      pesticide row' = Some ''A'' \<and>
      seasonal_use_count L' ''A'' = 1 \<and> last_use_day L' ''C'' = Some 1"
    unfolding f by (simp add: example_product_def initial_ledger_def summer_row_def)
  from thm2 a r have two: "\<exists>p \<in> set ?df.
          pesticide row2 = Some (Product p) \<and> 3 / 4 \<le> Effect_on_Adults p \<and>
          day (late_row 120) \<le> 183 - PHI_days p" by blast
  from d s a one two r show ?thesis by blast
qed

text \<open>
  Claim C1 as stated fails. With the table [P1, P2], where P1 has a seasonal maximum
  of 5, the first product that meets the five conditions in the claim's wording on
  day 1 is P2 (P1's volume after the dose, 64 or even 6.4, would exceed 5); the
  scheduler applies P1 on day 1 and raises the seasonal-maximum error for it.
\<close>

theorem first_claimed_product_is_not_the_one_applied:
  "find (claimed_conditions 183 (summer_row 1) initial_ledger 64)
        [example_product ''P1'' ''C1'' 5 10, example_product ''P2'' ''C2'' 1000 10] =
     Some (example_product ''P2'' ''C2'' 1000 10) \<and>
   find (claimed_conditions 183 (summer_row 1) initial_ledger (32 / 5))
        [example_product ''P1'' ''C1'' 5 10, example_product ''P2'' ''C2'' 1000 10] =
     Some (example_product ''P2'' ''C2'' 1000 10) \<and>
   pesticide_application_strategy (replicate 183 25) (replicate 183 5) 183
        [example_product ''P1'' ''C1'' 5 10, example_product ''P2'' ''C2'' 1000 10] =
     Inl (SeasonalMaxExceeded ''P1'') \<and>
   abort_day (strategy_loop (replicate 183 25) (replicate 183 5) 183
        [example_product ''P1'' ''C1'' 5 10, example_product ''P2'' ''C2'' 1000 10]) = Some 1"
proof -
  let ?df = "[example_product ''P1'' ''C1'' 5 10, example_product ''P2'' ''C2'' 1000 10]"
  obtain rest where "strategy_loop (replicate 183 25) (replicate 183 5) 183 ?df =
     (case run_days ?df 183 (summer_row 1 # summer_row 2 # rest) initial_ledger of
        Inl err \<Rightarrow> Inl (fst err, Some (snd err))
      | Inr res \<Rightarrow> Inr res)"
    using strategy_loop_constant_weather by blast
  then have "fst (projl (strategy_loop (replicate 183 25) (replicate 183 5) 183 ?df)) = SeasonalMaxExceeded ''P1''
    \<and> isl (strategy_loop (replicate 183 25) (replicate 183 5) 183 ?df)
    \<and> abort_day (strategy_loop (replicate 183 25) (replicate 183 5) 183 ?df) = Some 1"
    by (simp add: day_eval abort_day_def)
  then have "pesticide_application_strategy (replicate 183 25) (replicate 183 5) 183 ?df =
     Inl (SeasonalMaxExceeded ''P1'') \<and>
     abort_day (strategy_loop (replicate 183 25) (replicate 183 5) 183 ?df) = Some 1"
    by (cases "strategy_loop (replicate 183 25) (replicate 183 5) 183 ?df")
       (simp_all add: pesticide_application_strategy_def)
  moreover have "find (claimed_conditions 183 (summer_row 1) initial_ledger 64) ?df =
     Some (example_product ''P2'' ''C2'' 1000 10)"
    by (simp add: claimed_conditions_def day_eval)
  moreover have "find (claimed_conditions 183 (summer_row 1) initial_ledger (32 / 5)) ?df =
     Some (example_product ''P2'' ''C2'' 1000 10)"
    by (simp add: claimed_conditions_def day_eval)
  ultimately show ?thesis by blast
qed










text \<open>
  Claim C8, as amended. When the scheduler returns a schedule, its rows are exactly
  the days 1 up to the smaller of the number of input days and harvest day minus the
  largest pre-harvest interval of the table (which is not empty), one row per day in
  increasing order.
\<close>

theorem schedule_covers_days_up_to_bound:
  assumes "pesticide_application_strategy T P h df = Inr rows"
  shows "df \<noteq> [] \<and> map day rows = [1..min (int (length T)) (h - Max (PHI_days ` set df))]"
  using strategy_schedule_days[OF assms] by simp

text \<open>
  The theorem on a run that completes: harvest day 200 and a largest pre-harvest
  interval of 50 leave the days 1 to 150.
\<close>

theorem schedule_covers_days_up_to_bound_witness:
  "\<exists>rows. pesticide_application_strategy (replicate 183 25) (replicate 183 5) 200
             [example_product ''A'' ''C'' 20000 200, idle_product] = Inr rows \<and>
          map day rows = [1..150]"
proof -
  let ?df = "[example_product ''A'' ''C'' 20000 200, idle_product]"
  have "\<exists>rows. pesticide_application_strategy (replicate 183 25) (replicate 183 5) 200
             (example_product ''A'' ''C'' 20000 200 # [idle_product]) = Inr rows"
    by (rule strategy_succeeds) (simp_all add: example_product_def)
  then obtain rows where
    r: "pesticide_application_strategy (replicate 183 25) (replicate 183 5) 200 ?df = Inr rows"
    by blast
  from schedule_covers_days_up_to_bound[OF r] have "map day rows = [1..150]"
    by (simp add: example_product_def idle_product_def del: upto.simps)
  with r show ?thesis by blast
qed

text \<open>
  Claim C8 as stated fails: with harvest day 200 and a largest pre-harvest interval
  of 0 the claimed range is 1 to 200, and the schedule returned has the days 1 to 183.
\<close>

theorem schedule_stops_at_last_input_day:
  "schedule_days (pesticide_application_strategy (replicate 183 25) (replicate 183 5) 200
             [example_product ''A'' ''C'' 20000 200]) = Inr [1..183] \<and>
   200 - Max (PHI_days ` set [example_product ''A'' ''C'' 20000 200]) = 200"
proof -
  let ?df = "[example_product ''A'' ''C'' 20000 200]"
  have "\<exists>rows. pesticide_application_strategy (replicate 183 25) (replicate 183 5) 200
             (example_product ''A'' ''C'' 20000 200 # []) = Inr rows"
    by (rule strategy_succeeds) (simp_all add: example_product_def)
  then obtain rows where
    r: "pesticide_application_strategy (replicate 183 25) (replicate 183 5) 200 ?df = Inr rows"
    by blast
  have m: "200 - Max (PHI_days ` set ?df) = 200" by (simp add: example_product_def)
  from strategy_schedule_days(3)[OF r] have "map day rows = [1..183]"
    unfolding m by simp
  with r m show ?thesis by (simp add: schedule_days_def)
qed

section \<open>Claims about the outcome evaluator\<close>

text \<open>
  Claim C9 against the code. On a schedule whose only row is the day-1 row with an
  application of 64, as the scheduler records it, the evaluator raises: with no
  \<^verbatim>\<open>'harvest_day'\<close> column the column read fails, with one the comparison yields a
  whole column, which no \<^verbatim>\<open>if\<close> accepts. On the same row without an application it returns
  (1000 - 0.01 \<times> 10) \<times> 2 - 0.
\<close>

theorem profit_fails_on_schedule_with_application:
  "calculate_profit 100 20
     \<lparr>frame_rows = [(summer_row 1)\<lparr>pesticide := Some ''A'', application_rate := 64\<rparr>],
      harvest_day_column = None\<rparr> 1 1000 2 (1 / 100) 1 = Inl KeyError \<and>
   calculate_profit 100 20
     \<lparr>frame_rows = [(summer_row 1)\<lparr>pesticide := Some ''A'', application_rate := 64\<rparr>],
      harvest_day_column = Some [160]\<rparr> 1 1000 2 (1 / 100) 1 = Inl AmbiguousTruthValue \<and>
   calculate_profit 100 20
     \<lparr>frame_rows = [summer_row 1], harvest_day_column = None\<rparr> 1 1000 2 (1 / 100) 1 =
     Inr (19998 / 10)"
  by (simp add: calculate_profit_def truthy_def summer_row_def)

end
